theory Spec2Isabelle
  imports Complex_Main "HOL-Library.AList"
begin

section \<open>Data model of the game server (src/server/gameServer.ts)\<close>

text \<open>
  JavaScript numbers are modelled as real numbers, \<open>Date.now()\<close> as an integer number of
  milliseconds. The \<open>Map<string, Player>\<close> is an association list in insertion order, the
  order in which a JavaScript \<open>Map\<close> is iterated: \<open>AList.update\<close> replaces the value of a
  key in place and appends a new key at the end, as \<open>Map.set\<close> does.
\<close>

record player =
  p_id :: string
  p_x :: real
  p_z :: real
  p_angle :: real
  p_health :: real
  p_flashlightOn :: bool
  p_name :: string

record projectile =
  pr_id :: string
  pr_ownerId :: string
  pr_x :: real
  pr_z :: real
  pr_vx :: real
  pr_vz :: real
  pr_damage :: real

record fireZone =
  f_id :: string
  f_x :: real
  f_z :: real
  f_radius :: real
  f_timeLeft :: real

record gameState =
  players :: "(string \<times> player) list"
  projectiles :: "projectile list"
  fireZones :: "fireZone list"
  ringRadius :: real
  ringTimer :: real
  gameStarted :: bool

text \<open>One entry of the payload of a \<open>shoot\<close> command.\<close>

record shot =
  s_x :: real
  s_z :: real
  s_vx :: real
  s_vz :: real
  s_damage :: real

record wall =
  w_x :: real
  w_z :: real
  w_width :: real
  w_depth :: real

text \<open>The events the server sends, and to whom: \<open>io.emit\<close> reaches every connection,
  \<open>socket.broadcast.emit\<close> every connection but the sender, \<open>socket.emit\<close> and
  \<open>io.to(id).emit\<close> one connection.\<close>

datatype event =
    Init string "player list" "projectile list" "fireZone list" real real
  | PlayerJoined player
  | PlayerMoved string real real real
  | ProjectilesFired string "projectile list"
  | FireCreated fireZone
  | FlashlightToggled string bool
  | PlayerDamaged string real "string option"
  | PlayerDied string "string option"
  | PlayerRespawned string real real real
  | ChatMessage string string string
  | PlayerLeft string
  | RingDamage real
  | RingUpdate real real
  | PlayerHit string real string string
  | ProjectilesRemoved "string list"
  | FireDamage real
  | FireZonesRemoved "string list"

datatype target = ToAll | ToOthers string | ToOne string

type_synonym emit = "target \<times> event"

datatype error = TypeError

definition initialState :: gameState where
  "initialState =
     \<lparr>players = [], projectiles = [], fireZones = [],
      ringRadius = 80, ringTimer = 7 * 60, gameStarted = False\<rparr>"

definition spawnPoints :: "(real \<times> real) list" where
  "spawnPoints =
     [(-33, -31), (-27, -31), (-21, -31), (-6.3, -11),
      (-6.1, 15), (10, 5), (20, -15), (-15, 20)]"

definition walls :: "wall list" where
  "walls =
     [\<lparr>w_x = -70, w_z = 0, w_width = 1, w_depth = 80\<rparr>,
      \<lparr>w_x = 70, w_z = 0, w_width = 1, w_depth = 80\<rparr>,
      \<lparr>w_x = 0, w_z = -40, w_width = 140, w_depth = 1\<rparr>,
      \<lparr>w_x = 0, w_z = 40, w_width = 140, w_depth = 1\<rparr>]"

subsection \<open>Helpers\<close>

text \<open>\<open>Math.sqrt(dx * dx + dz * dz)\<close>.\<close>

definition dist2d :: "real \<Rightarrow> real \<Rightarrow> real" where
  "dist2d dx dz = sqrt (dx * dx + dz * dz)"

text \<open>The decimal rendering of an integer inside a template string.\<close>

definition digit :: "nat \<Rightarrow> char" where
  "digit n = char_of (48 + n)"

fun show_nat :: "nat \<Rightarrow> string" where
  "show_nat n = (if n < 10 then [digit n] else show_nat (n div 10) @ [digit (n mod 10)])"

definition show_int :: "int \<Rightarrow> string" where
  "show_int i = (if i < 0 then CHR ''-'' # show_nat (nat (- i)) else show_nat (nat i))"

text \<open>\<open>getRandomSpawn\<close>, given the sample \<open>r\<close> that \<open>Math.random()\<close> returned. Reading
  the array out of range gives \<open>undefined\<close> in JavaScript, here \<open>None\<close>; \<open>Math.random()\<close>
  itself only returns samples with \<open>0 \<le> r < 1\<close>.\<close>

definition getRandomSpawn :: "real \<Rightarrow> (real \<times> real) option" where
  "getRandomSpawn r =
     (let i = \<lfloor>r * real (length spawnPoints)\<rfloor>
      in if 0 \<le> i \<and> nat i < length spawnPoints then Some (spawnPoints ! nat i) else None)"

definition insideWall :: "real \<Rightarrow> real \<Rightarrow> wall \<Rightarrow> bool" where
  "insideWall x z w =
     (let halfWidth = w_width w / 2; halfDepth = w_depth w / 2
      in x \<ge> w_x w - halfWidth - 0.5 \<and> x \<le> w_x w + halfWidth + 0.5 \<and>
         z \<ge> w_z w - halfDepth - 0.5 \<and> z \<le> w_z w + halfDepth + 0.5)"

fun checkWallCollisionIn :: "wall list \<Rightarrow> real \<Rightarrow> real \<Rightarrow> bool" where
  "checkWallCollisionIn [] x z = False"
| "checkWallCollisionIn (w # ws) x z =
     (if insideWall x z w then True else checkWallCollisionIn ws x z)"

definition checkWallCollision :: "real \<Rightarrow> real \<Rightarrow> bool" where
  "checkWallCollision x z = checkWallCollisionIn walls x z"

subsection \<open>Command handlers\<close>

text \<open>Every handler takes the id of the socket it was registered for and returns the new
  state with the events emitted, in order.\<close>

definition connection :: "string \<Rightarrow> real \<Rightarrow> real \<Rightarrow> gameState \<Rightarrow> error + gameState \<times> emit list" where
  "connection sid r1 r2 gs =
     (case getRandomSpawn r1 of
        None \<Rightarrow> Inl TypeError
      | Some spawn \<Rightarrow>
          (let newPlayer =
                 \<lparr>p_id = sid, p_x = fst spawn, p_z = snd spawn, p_angle = 0, p_health = 100,
                  p_flashlightOn = True, p_name = ''Player'' @ show_int \<lfloor>r2 * 1000\<rfloor>\<rparr>;
               gs1 = gs\<lparr>players := AList.update sid newPlayer (players gs)\<rparr>;
               gs2 = (if \<not> gameStarted gs1 \<and> length (players gs1) \<ge> 1
                      then gs1\<lparr>gameStarted := True\<rparr> else gs1)
           in Inr (gs2,
                [(ToOne sid, Init sid (map snd (players gs2)) (projectiles gs2) (fireZones gs2)
                               (ringRadius gs2) (ringTimer gs2)),
                 (ToOthers sid, PlayerJoined newPlayer)])))"

definition move :: "string \<Rightarrow> real \<Rightarrow> real \<Rightarrow> real \<Rightarrow> gameState \<Rightarrow> gameState \<times> emit list" where
  "move sid x z angle gs =
     (case map_of (players gs) sid of
        None \<Rightarrow> (gs, [])
      | Some player \<Rightarrow>
          (let dx = x - p_x player; dz = z - p_z player; dist = dist2d dx dz
           in if dist < 2
              then (gs\<lparr>players :=
                          AList.update sid (player\<lparr>p_x := x, p_z := z, p_angle := angle\<rparr>)
                            (players gs)\<rparr>,
                    [(ToOthers sid, PlayerMoved sid x z angle)])
              else (gs, [])))"

text \<open>A projectile of a shot, from its index in the payload and its entry. The code reads
  \<open>Date.now()\<close> anew for every entry of the payload; here one reading \<open>now\<close> stands for
  the whole command. The ids of one command end in the index of the entry, which differs
  from entry to entry whatever the readings are.\<close>

definition newProjectile :: "string \<Rightarrow> int \<Rightarrow> nat \<times> shot \<Rightarrow> projectile" where
  "newProjectile sid now ip =
     \<lparr>pr_id = sid @ ''-'' @ show_int now @ ''-'' @ show_nat (fst ip),
      pr_ownerId = sid,
      pr_x = s_x (snd ip), pr_z = s_z (snd ip),
      pr_vx = s_vx (snd ip), pr_vz = s_vz (snd ip),
      pr_damage = s_damage (snd ip)\<rparr>"

definition shoot :: "string \<Rightarrow> int \<Rightarrow> shot list \<Rightarrow> gameState \<Rightarrow> gameState \<times> emit list" where
  "shoot sid now shots gs =
     (case map_of (players gs) sid of
        None \<Rightarrow> (gs, [])
      | Some player \<Rightarrow>
          if p_health player \<le> 0 then (gs, [])
          else (let newProjectiles = map (newProjectile sid now) (enumerate 0 shots)
                in (gs\<lparr>projectiles := projectiles gs @ newProjectiles\<rparr>,
                    [(ToAll, ProjectilesFired sid newProjectiles)])))"

definition molotov :: "string \<Rightarrow> int \<Rightarrow> real \<Rightarrow> real \<Rightarrow> real \<Rightarrow> gameState \<Rightarrow> gameState \<times> emit list" where
  "molotov sid now x z radius gs =
     (case map_of (players gs) sid of
        None \<Rightarrow> (gs, [])
      | Some player \<Rightarrow>
          if p_health player \<le> 0 then (gs, [])
          else (let fire = \<lparr>f_id = ''fire-'' @ sid @ ''-'' @ show_int now,
                            f_x = x, f_z = z, f_radius = radius, f_timeLeft = 5000\<rparr>
                in (gs\<lparr>fireZones := fireZones gs @ [fire]\<rparr>, [(ToAll, FireCreated fire)])))"

definition toggleFlashlight :: "string \<Rightarrow> bool \<Rightarrow> gameState \<Rightarrow> gameState \<times> emit list" where
  "toggleFlashlight sid on gs =
     (case map_of (players gs) sid of
        None \<Rightarrow> (gs, [])
      | Some player \<Rightarrow>
          (gs\<lparr>players := AList.update sid (player\<lparr>p_flashlightOn := on\<rparr>) (players gs)\<rparr>,
           [(ToOthers sid, FlashlightToggled sid on)]))"

definition takeDamage :: "string \<Rightarrow> real \<Rightarrow> string option \<Rightarrow> gameState \<Rightarrow> gameState \<times> emit list" where
  "takeDamage sid amount fromPlayerId gs =
     (case map_of (players gs) sid of
        None \<Rightarrow> (gs, [])
      | Some player \<Rightarrow>
          if p_health player > 0
          then (let h = max 0 (p_health player - amount)
                in (gs\<lparr>players := AList.update sid (player\<lparr>p_health := h\<rparr>) (players gs)\<rparr>,
                    (ToAll, PlayerDamaged sid h fromPlayerId) #
                    (if h \<le> 0 then [(ToAll, PlayerDied sid fromPlayerId)] else [])))
          else (gs, []))"

definition respawn :: "string \<Rightarrow> real \<Rightarrow> gameState \<Rightarrow> error + gameState \<times> emit list" where
  "respawn sid r gs =
     (case map_of (players gs) sid of
        None \<Rightarrow> Inr (gs, [])
      | Some player \<Rightarrow>
          if p_health player \<le> 0
          then (case getRandomSpawn r of
                  None \<Rightarrow> Inl TypeError
                | Some spawn \<Rightarrow>
                    Inr (gs\<lparr>players :=
                               AList.update sid
                                 (player\<lparr>p_x := fst spawn, p_z := snd spawn,
                                         p_health := 100, p_angle := 0\<rparr>)
                                 (players gs)\<rparr>,
                         [(ToAll, PlayerRespawned sid (fst spawn) (snd spawn) 100)]))
          else Inr (gs, []))"

definition chat :: "string \<Rightarrow> string \<Rightarrow> gameState \<Rightarrow> gameState \<times> emit list" where
  "chat sid message gs =
     (case map_of (players gs) sid of
        None \<Rightarrow> (gs, [])
      | Some player \<Rightarrow> (gs, [(ToAll, ChatMessage sid (p_name player) (take 200 message))]))"

definition disconnect :: "string \<Rightarrow> gameState \<Rightarrow> gameState \<times> emit list" where
  "disconnect sid gs =
     (gs\<lparr>players := AList.delete sid (players gs)\<rparr>, [(ToAll, PlayerLeft sid)])"

subsection \<open>The simulation loop\<close>

definition TICK_RATE :: real where
  "TICK_RATE = 1000 / 60"

definition shrinkRate :: real where
  "shrinkRate = (80 - 5) / (7 * 60)"

text \<open>The body of the ring-damage loop for one entry of the player table.\<close>

definition ringDamagePlayer :: "real \<Rightarrow> real \<Rightarrow> string \<Rightarrow> player \<Rightarrow> player \<times> emit list" where
  "ringDamagePlayer delta radius i player =
     (if p_health player > 0
      then (let dx = p_x player - 0; dz = p_z player - 0; distFromCenter = dist2d dx dz
            in if distFromCenter > radius
               then (let h = p_health player - 5 * delta
                     in if h \<le> 0
                        then (player\<lparr>p_health := 0\<rparr>, [(ToAll, PlayerDied i (Some ''ring''))])
                        else (player\<lparr>p_health := h\<rparr>, [(ToOne i, RingDamage h)]))
               else (player, []))
      else (player, []))"

fun ringDamageLoop :: "real \<Rightarrow> real \<Rightarrow> (string \<times> player) list \<Rightarrow> (string \<times> player) list \<times> emit list" where
  "ringDamageLoop delta radius [] = ([], [])"
| "ringDamageLoop delta radius (ip # rest) =
     (let (player, es) = ringDamagePlayer delta radius (fst ip) (snd ip);
          (rest', es') = ringDamageLoop delta radius rest
      in ((fst ip, player) # rest', es @ es'))"

text \<open>The first block of the tick: the shrink of the ring and, nested in the same
  conditional, the damage outside the ring. Timer and radius are real numbers here and
  doubles in the program, so the value stored at a given time can differ from the one
  computed here by the rounding of the program. The statements about the radius use the
  order of the values and the clamp at 5 only, and the clamp only where the interpolation
  is below 5 by a margin far above that rounding.\<close>

definition ringStep :: "real \<Rightarrow> gameState \<Rightarrow> gameState \<times> emit list" where
  "ringStep delta gs =
     (if gameStarted gs \<and> ringRadius gs > 5
      then (let timer = ringTimer gs - delta;
                radius = max 5 (80 - (7 * 60 - timer) * shrinkRate);
                (ps, es) = ringDamageLoop delta radius (players gs)
            in (gs\<lparr>ringTimer := timer, ringRadius := radius, players := ps\<rparr>, es))
      else (gs, []))"

definition ringBroadcast :: "int \<Rightarrow> gameState \<Rightarrow> emit list" where
  "ringBroadcast now gs =
     (if \<lfloor>real_of_int now / 1000\<rfloor> \<noteq> \<lfloor>(real_of_int now - TICK_RATE) / 1000\<rfloor>
      then [(ToAll, RingUpdate (ringRadius gs) (ringTimer gs))]
      else [])"

definition advance :: "real \<Rightarrow> projectile \<Rightarrow> projectile" where
  "advance delta pr =
     pr\<lparr>pr_x := pr_x pr + pr_vx pr * delta, pr_z := pr_z pr + pr_vz pr * delta\<rparr>"

text \<open>The inner loop over the players for one projectile; it stops at the first player hit.
  The third component tells whether a player was hit.\<close>

fun playerCollision :: "projectile \<Rightarrow> (string \<times> player) list \<Rightarrow> (string \<times> player) list \<times> emit list \<times> bool" where
  "playerCollision pr [] = ([], [], False)"
| "playerCollision pr (ip # rest) =
     (if fst ip \<noteq> pr_ownerId pr \<and> p_health (snd ip) > 0 \<and>
         dist2d (pr_x pr - p_x (snd ip)) (pr_z pr - p_z (snd ip)) < 0.7
      then (let h = p_health (snd ip) - pr_damage pr
            in ((fst ip, (snd ip)\<lparr>p_health := (if h \<le> 0 then 0 else h)\<rparr>) # rest,
                (ToAll, PlayerHit (fst ip) h (pr_id pr) (pr_ownerId pr)) #
                (if h \<le> 0 then [(ToAll, PlayerDied (fst ip) (Some (pr_ownerId pr)))] else []),
                True))
      else (let (rest', es, hit) = playerCollision pr rest in (ip # rest', es, hit)))"

text \<open>The body of the loop over the projectiles: the projectile moved, the players after a
  possible hit, the events, and the ids pushed to \<open>projectilesToRemove\<close>.\<close>

definition projectileStep :: "real \<Rightarrow> projectile \<Rightarrow> (string \<times> player) list \<Rightarrow> projectile \<times> (string \<times> player) list \<times> emit list \<times> string list" where
  "projectileStep delta pr0 ps =
     (let pr = advance delta pr0
      in if checkWallCollision (pr_x pr) (pr_z pr) then (pr, ps, [], [pr_id pr])
         else (let (ps', es, hit) = playerCollision pr ps
               in (pr, ps', es,
                   (if hit then [pr_id pr] else []) @
                   (if \<bar>pr_x pr\<bar> > 80 \<or> \<bar>pr_z pr\<bar> > 50 then [pr_id pr] else []))))"

fun projectileLoop :: "real \<Rightarrow> projectile list \<Rightarrow> (string \<times> player) list \<Rightarrow> projectile list \<times> (string \<times> player) list \<times> emit list \<times> string list" where
  "projectileLoop delta [] ps = ([], ps, [], [])"
| "projectileLoop delta (pr0 # rest) ps =
     (let (pr, ps1, es1, rm1) = projectileStep delta pr0 ps;
          (rest', ps2, es2, rm2) = projectileLoop delta rest ps1
      in (pr # rest', ps2, es1 @ es2, rm1 @ rm2))"

definition projectilesStep :: "real \<Rightarrow> gameState \<Rightarrow> gameState \<times> emit list" where
  "projectilesStep delta gs =
     (let (prs, ps, es, projectilesToRemove) = projectileLoop delta (projectiles gs) (players gs);
          gs1 = gs\<lparr>projectiles := prs, players := ps\<rparr>
      in if length projectilesToRemove > 0
         then (gs1\<lparr>projectiles := filter (\<lambda>p. pr_id p \<notin> set projectilesToRemove) prs\<rparr>,
               es @ [(ToAll, ProjectilesRemoved projectilesToRemove)])
         else (gs1, es))"

text \<open>The body of the damage loop of one fire zone for one entry of the player table. The
  notification carries the health before it is clamped.\<close>

definition fireDamagePlayer :: "real \<Rightarrow> fireZone \<Rightarrow> string \<Rightarrow> player \<Rightarrow> player \<times> emit list" where
  "fireDamagePlayer delta fire i player =
     (if p_health player > 0 \<and>
         dist2d (f_x fire - p_x player) (f_z fire - p_z player) < f_radius fire
      then (let h = p_health player - 15 * delta
            in (player\<lparr>p_health := (if h \<le> 0 then 0 else h)\<rparr>,
                (ToOne i, FireDamage h) #
                (if h \<le> 0 then [(ToAll, PlayerDied i (Some ''fire''))] else [])))
      else (player, []))"

fun fireDamageLoop :: "real \<Rightarrow> fireZone \<Rightarrow> (string \<times> player) list \<Rightarrow> (string \<times> player) list \<times> emit list" where
  "fireDamageLoop delta fire [] = ([], [])"
| "fireDamageLoop delta fire (ip # rest) =
     (let (player, es) = fireDamagePlayer delta fire (fst ip) (snd ip);
          (rest', es') = fireDamageLoop delta fire rest
      in ((fst ip, player) # rest', es @ es'))"

fun fireLoop :: "real \<Rightarrow> fireZone list \<Rightarrow> (string \<times> player) list \<Rightarrow> fireZone list \<times> (string \<times> player) list \<times> emit list \<times> string list" where
  "fireLoop delta [] ps = ([], ps, [], [])"
| "fireLoop delta (fire0 # rest) ps =
     (let fire = fire0\<lparr>f_timeLeft := f_timeLeft fire0 - TICK_RATE\<rparr>
      in if f_timeLeft fire \<le> 0
         then (let (rest', ps2, es2, rm) = fireLoop delta rest ps
               in (fire # rest', ps2, es2, f_id fire # rm))
         else (let (ps1, es1) = fireDamageLoop delta fire ps;
                   (rest', ps2, es2, rm) = fireLoop delta rest ps1
               in (fire # rest', ps2, es1 @ es2, rm)))"

definition fireStep :: "real \<Rightarrow> gameState \<Rightarrow> gameState \<times> emit list" where
  "fireStep delta gs =
     (let (fs, ps, es, fireZonesToRemove) = fireLoop delta (fireZones gs) (players gs);
          gs1 = gs\<lparr>fireZones := fs, players := ps\<rparr>
      in if length fireZonesToRemove > 0
         then (gs1\<lparr>fireZones := filter (\<lambda>f. f_id f \<notin> set fireZonesToRemove) fs\<rparr>,
               es @ [(ToAll, FireZonesRemoved fireZonesToRemove)])
         else (gs1, es))"

text \<open>One run of the \<open>setInterval\<close> callback at time \<open>now\<close>, the previous one having run at
  \<open>lastTick\<close>.\<close>

definition tick :: "int \<Rightarrow> int \<Rightarrow> gameState \<Rightarrow> gameState \<times> emit list" where
  "tick now lastTick gs =
     (let delta = real_of_int (now - lastTick) / 1000;
          (gs1, es1) = ringStep delta gs;
          es2 = ringBroadcast now gs1;
          (gs2, es3) = projectilesStep delta gs1;
          (gs3, es4) = fireStep delta gs2
      in (gs3, es1 @ es2 @ es3 @ es4))"

subsection \<open>The server as a transition system\<close>

record server =
  game :: gameState
  lastTick :: int

datatype command =
    Connection real real
  | Move real real real
  | Shoot int "shot list"
  | Molotov int real real real
  | ToggleFlashlight bool
  | TakeDamage real "string option"
  | Respawn real
  | Chat string
  | Disconnect

datatype input = Command string command | Tick int

fun handle :: "string \<Rightarrow> command \<Rightarrow> gameState \<Rightarrow> error + gameState \<times> emit list" where
  "handle sid (Connection r1 r2) gs = connection sid r1 r2 gs"
| "handle sid (Move x z angle) gs = Inr (move sid x z angle gs)"
| "handle sid (Shoot now shots) gs = Inr (shoot sid now shots gs)"
| "handle sid (Molotov now x z radius) gs = Inr (molotov sid now x z radius gs)"
| "handle sid (ToggleFlashlight on) gs = Inr (toggleFlashlight sid on gs)"
| "handle sid (TakeDamage amount fromPlayerId) gs = Inr (takeDamage sid amount fromPlayerId gs)"
| "handle sid (Respawn r) gs = respawn sid r gs"
| "handle sid (Chat message) gs = Inr (chat sid message gs)"
| "handle sid Disconnect gs = Inr (disconnect sid gs)"

fun step :: "input \<Rightarrow> server \<Rightarrow> error + server \<times> emit list" where
  "step (Command sid c) sv =
     (case handle sid c (game sv) of
        Inl e \<Rightarrow> Inl e
      | Inr (gs, es) \<Rightarrow> Inr (sv\<lparr>game := gs\<rparr>, es))"
| "step (Tick now) sv =
     (let (gs, es) = tick now (lastTick sv) (game sv)
      in Inr (\<lparr>game = gs, lastTick = now\<rparr>, es))"

fun run :: "input list \<Rightarrow> server \<Rightarrow> error + server \<times> emit list" where
  "run [] sv = Inr (sv, [])"
| "run (i # is) sv =
     (case step i sv of
        Inl e \<Rightarrow> Inl e
      | Inr (sv1, es1) \<Rightarrow>
          (case run is sv1 of
             Inl e \<Rightarrow> Inl e
           | Inr (sv2, es2) \<Rightarrow> Inr (sv2, es1 @ es2)))"

definition initialServer :: "int \<Rightarrow> server" where
  "initialServer t0 = \<lparr>game = initialState, lastTick = t0\<rparr>"

subsection \<open>Vocabulary of the statements\<close>

text \<open>The \<open>playerDied\<close> events of a list of events.\<close>

definition deathEvents :: "emit list \<Rightarrow> emit list" where
  "deathEvents es = filter (\<lambda>e. case snd e of PlayerDied i k \<Rightarrow> True | _ \<Rightarrow> False) es"

definition isHit :: "emit \<Rightarrow> bool" where
  "isHit e = (case snd e of PlayerHit i h prid owner \<Rightarrow> True | _ \<Rightarrow> False)"

definition isFireDamage :: "emit \<Rightarrow> bool" where
  "isFireDamage e = (case snd e of FireDamage h \<Rightarrow> True | _ \<Rightarrow> False)"

text \<open>The test of the projectile loop for one player, and of the fire loop for one player.\<close>

definition collides :: "projectile \<Rightarrow> string \<times> player \<Rightarrow> bool" where
  "collides pr ip \<longleftrightarrow>
     fst ip \<noteq> pr_ownerId pr \<and> p_health (snd ip) > 0 \<and>
     dist2d (pr_x pr - p_x (snd ip)) (pr_z pr - p_z (snd ip)) < 0.7"

definition inFire :: "fireZone \<Rightarrow> player \<Rightarrow> bool" where
  "inFire fire p \<longleftrightarrow>
     p_health p > 0 \<and> dist2d (f_x fire - p_x p) (f_z fire - p_z p) < f_radius fire"

text \<open>The number of zones of the list that are still active after this tick's decrement and
  cover the player, and the player after that many applications of the fire damage.\<close>

definition burning :: "fireZone list \<Rightarrow> player \<Rightarrow> nat" where
  "burning fs p =
     length (filter (\<lambda>f. 0 < f_timeLeft f - TICK_RATE \<and>
                          dist2d (f_x f - p_x p) (f_z f - p_z p) < f_radius f) fs)"

definition burnt :: "real \<Rightarrow> fireZone list \<Rightarrow> string \<times> player \<Rightarrow> string \<times> player" where
  "burnt delta fs ip =
     (fst ip,
      if 0 < p_health (snd ip)
      then (snd ip)\<lparr>p_health := max 0 (p_health (snd ip) - 15 * delta * real (burning fs (snd ip)))\<rparr>
      else snd ip)"

text \<open>A projectile after its move of this tick: inside a wall, outside the map bounds. The
  ids collected in \<open>projectilesToRemove\<close> by one tick.\<close>

definition hitsWall :: "real \<Rightarrow> projectile \<Rightarrow> bool" where
  "hitsWall delta pr0 = checkWallCollision (pr_x (advance delta pr0)) (pr_z (advance delta pr0))"

definition outOfMap :: "real \<Rightarrow> projectile \<Rightarrow> bool" where
  "outOfMap delta pr0 \<longleftrightarrow> \<bar>pr_x (advance delta pr0)\<bar> > 80 \<or> \<bar>pr_z (advance delta pr0)\<bar> > 50"

definition removalBatch :: "real \<Rightarrow> gameState \<Rightarrow> string list" where
  "removalBatch delta gs = snd (snd (snd (projectileLoop delta (projectiles gs) (players gs))))"

text \<open>The \<open>delta\<close> of a tick, and the state of a tick after its ring block and after its
  projectile block: the states in which the projectile loop and the fire loop start.\<close>

definition tickDelta :: "int \<Rightarrow> int \<Rightarrow> real" where
  "tickDelta now lt = real_of_int (now - lt) / 1000"

definition afterRing :: "int \<Rightarrow> int \<Rightarrow> gameState \<Rightarrow> gameState" where
  "afterRing now lt gs = fst (ringStep (tickDelta now lt) gs)"

definition afterProjectiles :: "int \<Rightarrow> int \<Rightarrow> gameState \<Rightarrow> gameState" where
  "afterProjectiles now lt gs = fst (projectilesStep (tickDelta now lt) (afterRing now lt gs))"

text \<open>The timestamps of the ticks of a run do not decrease, starting from the last tick
  \<open>t\<close>: every \<open>delta\<close> is at least 0.\<close>

fun clockMonotone :: "int \<Rightarrow> input list \<Rightarrow> bool" where
  "clockMonotone t [] = True"
| "clockMonotone t (Tick now # ins) = (t \<le> now \<and> clockMonotone now ins)"
| "clockMonotone t (Command sid c # ins) = clockMonotone t ins"

text \<open>The radius is the interpolation of the timer; and, for a game that had started with
  the timer at 420 s when the last tick was \<open>t0\<close>, the timer counts the time since \<open>t0\<close>
  as long as the radius is above the floor.\<close>

definition ringFormula :: "gameState \<Rightarrow> bool" where
  "ringFormula gs \<longleftrightarrow> ringRadius gs = max 5 (80 - (7 * 60 - ringTimer gs) * shrinkRate)"

definition ringClock :: "int \<Rightarrow> server \<Rightarrow> bool" where
  "ringClock t0 sv \<longleftrightarrow>
     gameStarted (game sv) \<and> ringFormula (game sv) \<and> t0 \<le> lastTick sv \<and>
     (ringRadius (game sv) > 5 \<longrightarrow>
        ringTimer (game sv) = 7 * 60 - real_of_int (lastTick sv - t0) / 1000)"







text \<open>Two player tables with the same keys in the same order, where every player who was
  dead in the first is unchanged in the second.\<close>

definition deadKept :: "(string \<times> player) list \<Rightarrow> (string \<times> player) list \<Rightarrow> bool" where
  "deadKept ps ps' =
     list_all2 (\<lambda>a b. fst a = fst b \<and> (p_health (snd a) \<le> 0 \<longrightarrow> b = a)) ps ps'"

subsection \<open>Example states\<close>

definition playerA :: player where
  "playerA = \<lparr>p_id = ''a'', p_x = 0, p_z = 0, p_angle = 0, p_health = 100,
              p_flashlightOn = True, p_name = ''Player7''\<rparr>"

definition playerB :: player where
  "playerB = \<lparr>p_id = ''a'', p_x = 1, p_z = 1, p_angle = 0, p_health = 100,
              p_flashlightOn = True, p_name = ''Player7''\<rparr>"

definition playerJoined :: player where
  "playerJoined = \<lparr>p_id = ''a'', p_x = - 21, p_z = - 31, p_angle = 0, p_health = 100,
                   p_flashlightOn = True, p_name = ''Player'' @ show_int 500\<rparr>"

definition shotA :: shot where
  "shotA = \<lparr>s_x = 0, s_z = 0, s_vx = 10, s_vz = 0, s_damage = 10\<rparr>"

definition fireA :: fireZone where
  "fireA = \<lparr>f_id = ''fire-a-1'', f_x = 0, f_z = 0, f_radius = 3, f_timeLeft = 5000\<rparr>"

definition fireB :: fireZone where
  "fireB = \<lparr>f_id = ''fire-a-2'', f_x = 0, f_z = 0, f_radius = 3, f_timeLeft = 5000\<rparr>"

definition projOut :: projectile where
  "projOut = \<lparr>pr_id = ''b-1-0'', pr_ownerId = ''b'', pr_x = 0, pr_z = 51,
              pr_vx = 0, pr_vz = 0, pr_damage = 10\<rparr>"

definition projWall :: projectile where
  "projWall = \<lparr>pr_id = ''b-1-1'', pr_ownerId = ''b'', pr_x = 69, pr_z = 0,
               pr_vx = 10, pr_vz = 0, pr_damage = 10\<rparr>"

definition projFly :: projectile where
  "projFly = \<lparr>pr_id = ''b-1-3'', pr_ownerId = ''b'', pr_x = 10, pr_z = 10,
              pr_vx = 1, pr_vz = 0, pr_damage = 10\<rparr>"

definition projFatal :: projectile where
  "projFatal = \<lparr>pr_id = ''b-1-2'', pr_ownerId = ''b'', pr_x = 0, pr_z = 0,
                pr_vx = 0, pr_vz = 0, pr_damage = 150\<rparr>"

definition gsA :: gameState where
  "gsA = initialState\<lparr>players := [(''a'', playerA)], gameStarted := True\<rparr>"

definition gsDead :: gameState where
  "gsDead = initialState\<lparr>players := [(''a'', playerA\<lparr>p_health := 0\<rparr>)], gameStarted := True\<rparr>"

definition gsTwoFires :: gameState where
  "gsTwoFires = initialState\<lparr>players := [(''a'', playerB)], fireZones := [fireA, fireB],
                             gameStarted := True\<rparr>"

definition gsFloor :: gameState where
  "gsFloor = \<lparr>players = [(''a'', playerA\<lparr>p_x := 50\<rparr>)], projectiles = [], fireZones = [],
              ringRadius = 5, ringTimer = 0, gameStarted = True\<rparr>"

definition gsOut :: gameState where
  "gsOut = initialState\<lparr>players := [(''a'', playerA\<lparr>p_z := 51\<rparr>)], projectiles := [projOut],
                        gameStarted := True\<rparr>"

definition gsWall :: gameState where
  "gsWall = initialState\<lparr>players := [(''a'', playerA\<lparr>p_z := 51\<rparr>)],
                         projectiles := [projWall, projOut, projFly], gameStarted := True\<rparr>"

definition gsFatal :: gameState where
  "gsFatal = initialState\<lparr>players := [(''a'', playerA)], projectiles := [projFatal],
                          gameStarted := True\<rparr>"

definition gsBurn :: gameState where
  "gsBurn = initialState\<lparr>players := [(''a'', playerB\<lparr>p_health := 1\<rparr>)], fireZones := [fireA],
                         gameStarted := True\<rparr>"

section \<open>Auxiliary facts\<close>

subsection \<open>Distances, random spawns and decimal rendering\<close>

declare show_nat.simps [simp del]

lemma dist2d_nonneg: "0 \<le> dist2d dx dz"
  by (simp add: dist2d_def)

lemma dist2d_less_iff: "dist2d dx dz < r \<longleftrightarrow> 0 < r \<and> dx * dx + dz * dz < r * r"
proof (cases "0 < r")
  case True
  then have "r = sqrt (r * r)" by simp
  then have "dist2d dx dz < r \<longleftrightarrow> sqrt (dx * dx + dz * dz) < sqrt (r * r)"
    by (simp add: dist2d_def)
  also have "\<dots> \<longleftrightarrow> dx * dx + dz * dz < r * r"
    by (rule real_sqrt_less_iff)
  finally show ?thesis using True by simp
next
  case False
  then show ?thesis using dist2d_nonneg [of dx dz] by linarith
qed

lemma dist2d_greater_iff: "r < dist2d dx dz \<longleftrightarrow> r < 0 \<or> r * r < dx * dx + dz * dz"
proof (cases "0 \<le> r")
  case True
  then have "r = sqrt (r * r)" by simp
  then have "r < dist2d dx dz \<longleftrightarrow> sqrt (r * r) < sqrt (dx * dx + dz * dz)"
    by (simp add: dist2d_def)
  also have "\<dots> \<longleftrightarrow> r * r < dx * dx + dz * dz"
    by (rule real_sqrt_less_iff)
  finally show ?thesis using True by simp
next
  case False
  then show ?thesis using dist2d_nonneg [of dx dz] by linarith
qed

lemma dist2d_ge_iff: "r \<le> dist2d dx dz \<longleftrightarrow> r \<le> 0 \<or> r * r \<le> dx * dx + dz * dz"
  using dist2d_less_iff [of dx dz r] by (auto simp: not_less [symmetric])

lemmas dist2d_eval = dist2d_less_iff dist2d_greater_iff dist2d_ge_iff

lemma getRandomSpawn_in_range:
  assumes "0 \<le> r" "r < 1"
  shows "\<exists>spawn. getRandomSpawn r = Some spawn \<and> spawn \<in> set spawnPoints"
proof -
  have len: "length spawnPoints = 8" by (simp add: spawnPoints_def)
  have "0 \<le> r * 8" using assms by simp
  then have lo: "0 \<le> \<lfloor>r * 8\<rfloor>" by simp
  have "r * 8 < 8" using assms by simp
  then have hi: "\<lfloor>r * 8\<rfloor> < 8" by (simp add: floor_less_iff)
  from lo hi have idx: "nat \<lfloor>r * 8\<rfloor> < length spawnPoints" by (simp add: len nat_less_iff)
  then have "getRandomSpawn r = Some (spawnPoints ! nat \<lfloor>r * 8\<rfloor>)"
    using lo by (simp add: getRandomSpawn_def len)
  with idx show ?thesis by (metis nth_mem)
qed

lemma show_nat_nonempty: "show_nat n \<noteq> []"
  by (subst show_nat.simps) simp

lemma digit_inj: "m < 10 \<Longrightarrow> n < 10 \<Longrightarrow> digit m = digit n \<Longrightarrow> m = n"
  by (simp add: digit_def char_of_eq_iff take_bit_eq_mod)

lemma show_nat_inj: "show_nat m = show_nat n \<Longrightarrow> m = n"
proof (induction m arbitrary: n rule: show_nat.induct)
  case (1 m)
  show ?case
  proof (cases "m < 10")
    case small_m: True
    show ?thesis
    proof (cases "n < 10")
      case True
      with small_m "1.prems" show ?thesis
        by (simp add: show_nat.simps [of m] show_nat.simps [of n] digit_inj)
    next
      case False
      with small_m "1.prems" have "[digit m] = show_nat (n div 10) @ [digit (n mod 10)]"
        by (simp add: show_nat.simps [of m] show_nat.simps [of n])
      then have "show_nat (n div 10) = []" by simp
      then show ?thesis using show_nat_nonempty by blast
    qed
  next
    case big_m: False
    show ?thesis
    proof (cases "n < 10")
      case True
      with big_m "1.prems" have "show_nat (m div 10) @ [digit (m mod 10)] = [digit n]"
        by (simp add: show_nat.simps [of m] show_nat.simps [of n])
      then have "show_nat (m div 10) = []" by simp
      then show ?thesis using show_nat_nonempty by blast
    next
      case False
      with big_m "1.prems"
      have eq: "show_nat (m div 10) @ [digit (m mod 10)] = show_nat (n div 10) @ [digit (n mod 10)]"
        by (simp add: show_nat.simps [of m] show_nat.simps [of n])
      then have "show_nat (m div 10) = show_nat (n div 10)" by simp
      with "1.IH" big_m have d: "m div 10 = n div 10" by blast
      from eq have "digit (m mod 10) = digit (n mod 10)" by simp
      then have r: "m mod 10 = n mod 10" by (intro digit_inj) simp_all
      from d r show ?thesis by (metis div_mult_mod_eq)
    qed
  qed
qed

subsection \<open>Projectiles created by a shot\<close>

lemma map_newProjectile_ids:
  "map pr_id (map (newProjectile sid now) (enumerate k shots)) =
   map (\<lambda>i. sid @ ''-'' @ show_int now @ ''-'' @ show_nat i) [k..<k + length shots]"
  by (induction shots arbitrary: k) (simp_all add: newProjectile_def upt_rec)

lemma distinct_new_ids:
  "distinct (map pr_id (map (newProjectile sid now) (enumerate k shots)))"
  unfolding map_newProjectile_ids
  by (auto simp: distinct_map intro!: inj_onI dest: show_nat_inj)

lemma newProjectile_owner:
  "p \<in> set (map (newProjectile sid now) (enumerate k shots)) \<Longrightarrow> pr_ownerId p = sid"
  by (auto simp: newProjectile_def)

lemma newProjectile_payload:
  "map (\<lambda>p. (pr_x p, pr_z p, pr_vx p, pr_vz p, pr_damage p))
       (map (newProjectile sid now) (enumerate k shots)) =
   map (\<lambda>s. (s_x s, s_z s, s_vx s, s_vz s, s_damage s)) shots"
  by (induction shots arbitrary: k) (simp_all add: newProjectile_def)

subsection \<open>The fire-zone loop\<close>

lemma fireDamageLoop_players:
  "fst (fireDamageLoop delta fire ps) =
   map (\<lambda>ip. (fst ip, if inFire fire (snd ip)
                        then (snd ip)\<lparr>p_health := max 0 (p_health (snd ip) - 15 * delta)\<rparr>
                        else snd ip)) ps"
  by (induction ps) (auto simp: fireDamagePlayer_def inFire_def Let_def split: prod.splits)

lemma burnt_step:
  assumes "0 < f_timeLeft f - TICK_RATE"
  shows "burnt delta fs (fst ip, if inFire f (snd ip)
                        then (snd ip)\<lparr>p_health := max 0 (p_health (snd ip) - 15 * delta)\<rparr>
                        else snd ip) = burnt delta (f # fs) ip"
proof (cases "inFire f (snd ip)")
  case False
  then show ?thesis using assms by (auto simp: burnt_def burning_def inFire_def)
next
  case True
  let ?h = "p_health (snd ip)"
  let ?c = "real (burning fs (snd ip))"
  have pos: "0 < ?h" and cov: "dist2d (f_x f - p_x (snd ip)) (f_z f - p_z (snd ip)) < f_radius f"
    using True by (auto simp: inFire_def)
  have b1: "burning fs ((snd ip)\<lparr>p_health := max 0 (?h - 15 * delta)\<rparr>) = burning fs (snd ip)"
    by (simp add: burning_def)
  have b2: "real (burning (f # fs) (snd ip)) = ?c + 1"
    using assms cov by (simp add: burning_def)
  have c0: "0 \<le> ?c" by simp
  show ?thesis
  proof (cases "0 < ?h - 15 * delta")
    case alive: True
    then show ?thesis using True pos b1 b2
      by (simp add: burnt_def max_def algebra_simps)
  next
    case dead: False
    with pos have d: "0 < delta" by linarith
    then have "0 \<le> delta * ?c" using c0 by simp
    then have "?h - 15 * delta * (?c + 1) \<le> 0" using dead by (simp add: algebra_simps)
    then show ?thesis using True pos dead b1 b2
      by (simp add: burnt_def max_def)
  qed
qed

lemma fireLoop_players:
  "fst (snd (fireLoop delta fs ps)) = map (burnt delta fs) ps"
proof (induction fs arbitrary: ps)
  case Nil
  show ?case by (simp add: burnt_def burning_def map_idI)
next
  case (Cons f fs)
  show ?case
  proof (cases "f_timeLeft f - TICK_RATE \<le> 0")
    case True
    then have "burnt delta (f # fs) = burnt delta fs"
      by (auto simp: burnt_def burning_def fun_eq_iff)
    with True Cons.IH [of ps] show ?thesis
      by (auto simp: Let_def split: prod.splits)
  next
    case False
    then have act: "0 < f_timeLeft f - TICK_RATE" by simp
    let ?f = "f\<lparr>f_timeLeft := f_timeLeft f - TICK_RATE\<rparr>"
    have inF: "inFire ?f = inFire f" by (simp add: inFire_def fun_eq_iff)
    have "fst (snd (fireLoop delta (f # fs) ps)) =
          fst (snd (fireLoop delta fs (fst (fireDamageLoop delta ?f ps))))"
      using False by (simp add: Let_def split: prod.splits)
    also have "\<dots> = map (burnt delta fs) (fst (fireDamageLoop delta ?f ps))"
      by (rule Cons.IH)
    also have "\<dots> = map (burnt delta (f # fs)) ps"
      by (simp add: fireDamageLoop_players inF burnt_step [OF act] o_def)
    finally show ?thesis .
  qed
qed

lemma fireStep_players:
  "players (fst (fireStep delta gs)) = map (burnt delta (fireZones gs)) (players gs)"
  using fireLoop_players [of delta "fireZones gs" "players gs"]
  by (auto simp: fireStep_def Let_def split: prod.splits)

subsection \<open>Removal of projectiles\<close>

lemma playerCollision_hit: "snd (snd (playerCollision pr ps)) = list_ex (collides pr) ps"
  by (induction ps) (auto simp: collides_def Let_def split: prod.splits)

lemma advance_id [simp]: "pr_id (advance delta pr0) = pr_id pr0"
  by (simp add: advance_def)

lemma projectileStep_wall:
  "hitsWall delta pr0 \<Longrightarrow> projectileStep delta pr0 ps = (advance delta pr0, ps, [], [pr_id pr0])"
  by (simp add: projectileStep_def hitsWall_def Let_def)

lemma projectileStep_removals:
  "snd (snd (snd (projectileStep delta pr0 ps))) =
     (if hitsWall delta pr0 then [pr_id pr0]
      else (if list_ex (collides (advance delta pr0)) ps then [pr_id pr0] else []) @
           (if outOfMap delta pr0 then [pr_id pr0] else []))"
  using playerCollision_hit [of "advance delta pr0" ps]
  by (auto simp: projectileStep_def hitsWall_def outOfMap_def Let_def split: prod.splits)

lemma projectileLoop_removals_subset:
  "set (snd (snd (snd (projectileLoop delta prs ps)))) \<subseteq> pr_id ` set prs"
proof (induction prs arbitrary: ps)
  case Nil
  show ?case by simp
next
  case (Cons pr0 rest)
  obtain pr ps1 es1 rm1 where s: "projectileStep delta pr0 ps = (pr, ps1, es1, rm1)"
    by (metis prod_cases4)
  obtain rest' ps2 es2 rm2 where l: "projectileLoop delta rest ps1 = (rest', ps2, es2, rm2)"
    by (metis prod_cases4)
  have "set rm1 \<subseteq> {pr_id pr0}"
    using projectileStep_removals [of delta pr0 ps] s by (auto split: if_splits)
  moreover have "set rm2 \<subseteq> pr_id ` set rest" using Cons.IH [of ps1] l by simp
  ultimately show ?case using s l by auto
qed

lemma projectileLoop_removals_count:
  assumes "distinct (map pr_id prs)"
  shows "count_list (snd (snd (snd (projectileLoop delta prs ps)))) i \<le> 2 \<and>
         (\<forall>pr0 \<in> set prs. pr_id pr0 = i \<and> hitsWall delta pr0 \<longrightarrow>
            count_list (snd (snd (snd (projectileLoop delta prs ps)))) i = 1)"
  using assms
proof (induction prs arbitrary: ps)
  case Nil
  show ?case by simp
next
  case (Cons pr0 rest)
  obtain pr ps1 es1 rm1 where s: "projectileStep delta pr0 ps = (pr, ps1, es1, rm1)"
    by (metis prod_cases4)
  obtain rest' ps2 es2 rm2 where l: "projectileLoop delta rest ps1 = (rest', ps2, es2, rm2)"
    by (metis prod_cases4)
  have rm1: "rm1 = (if hitsWall delta pr0 then [pr_id pr0]
      else (if list_ex (collides (advance delta pr0)) ps then [pr_id pr0] else []) @
           (if outOfMap delta pr0 then [pr_id pr0] else []))"
    using projectileStep_removals [of delta pr0 ps] s by simp
  have sub: "set rm2 \<subseteq> pr_id ` set rest"
    using projectileLoop_removals_subset [of delta rest ps1] l by simp
  have ih: "count_list rm2 i \<le> 2 \<and>
         (\<forall>q \<in> set rest. pr_id q = i \<and> hitsWall delta q \<longrightarrow> count_list rm2 i = 1)"
    using Cons.IH [of ps1] Cons.prems l by simp
  have whole: "snd (snd (snd (projectileLoop delta (pr0 # rest) ps))) = rm1 @ rm2"
    using s l by simp
  show ?case
  proof (cases "pr_id pr0 = i")
    case True
    then have "i \<notin> pr_id ` set rest" using Cons.prems by auto
    then have z: "count_list rm2 i = 0" using sub by (auto simp: count_list_0_iff)
    have nr: "\<forall>q \<in> set rest. pr_id q \<noteq> i" using \<open>i \<notin> pr_id ` set rest\<close> by auto
    show ?thesis unfolding whole using True z nr by (auto simp: rm1)
  next
    case False
    then have "count_list rm1 i = 0" by (auto simp: rm1)
    then show ?thesis unfolding whole using ih False by auto
  qed
qed

lemma projectilesStep_removed_gone:
  "p \<in> set (projectiles (fst (projectilesStep delta gs))) \<Longrightarrow> pr_id p \<notin> set (removalBatch delta gs)"
  by (auto simp: projectilesStep_def removalBatch_def Let_def split: prod.splits if_splits)

subsection \<open>The ring fields\<close>

lemma connection_ring:
  "connection sid r1 r2 gs = Inr (gs', es) \<Longrightarrow>
     ringRadius gs' = ringRadius gs \<and> ringTimer gs' = ringTimer gs \<and> gameStarted gs'"
  by (auto simp: connection_def Let_def Suc_le_eq split: option.splits if_splits)

lemma respawn_ring:
  "respawn sid r gs = Inr (gs', es) \<Longrightarrow>
     ringRadius gs' = ringRadius gs \<and> ringTimer gs' = ringTimer gs \<and> gameStarted gs' = gameStarted gs"
  by (auto simp: respawn_def split: option.splits if_splits)

lemma move_ring:
  "ringRadius (fst (move sid x z a gs)) = ringRadius gs \<and>
   ringTimer (fst (move sid x z a gs)) = ringTimer gs \<and>
   gameStarted (fst (move sid x z a gs)) = gameStarted gs"
  by (simp add: move_def Let_def split: option.splits)

lemma shoot_ring:
  "ringRadius (fst (shoot sid now shots gs)) = ringRadius gs \<and>
   ringTimer (fst (shoot sid now shots gs)) = ringTimer gs \<and>
   gameStarted (fst (shoot sid now shots gs)) = gameStarted gs"
  by (simp add: shoot_def Let_def split: option.splits)

lemma molotov_ring:
  "ringRadius (fst (molotov sid now x z r gs)) = ringRadius gs \<and>
   ringTimer (fst (molotov sid now x z r gs)) = ringTimer gs \<and>
   gameStarted (fst (molotov sid now x z r gs)) = gameStarted gs"
  by (simp add: molotov_def Let_def split: option.splits)

lemma toggleFlashlight_ring:
  "ringRadius (fst (toggleFlashlight sid on gs)) = ringRadius gs \<and>
   ringTimer (fst (toggleFlashlight sid on gs)) = ringTimer gs \<and>
   gameStarted (fst (toggleFlashlight sid on gs)) = gameStarted gs"
  by (simp add: toggleFlashlight_def split: option.splits)

lemma takeDamage_ring:
  "ringRadius (fst (takeDamage sid amount f gs)) = ringRadius gs \<and>
   ringTimer (fst (takeDamage sid amount f gs)) = ringTimer gs \<and>
   gameStarted (fst (takeDamage sid amount f gs)) = gameStarted gs"
  by (simp add: takeDamage_def Let_def split: option.splits)

lemma chat_ring:
  "ringRadius (fst (chat sid m gs)) = ringRadius gs \<and>
   ringTimer (fst (chat sid m gs)) = ringTimer gs \<and>
   gameStarted (fst (chat sid m gs)) = gameStarted gs"
  by (simp add: chat_def split: option.splits)

lemma disconnect_ring:
  "ringRadius (fst (disconnect sid gs)) = ringRadius gs \<and>
   ringTimer (fst (disconnect sid gs)) = ringTimer gs \<and>
   gameStarted (fst (disconnect sid gs)) = gameStarted gs"
  by (simp add: disconnect_def)

lemma handle_ring:
  assumes "handle sid c gs = Inr (gs', es)"
  shows "ringRadius gs' = ringRadius gs \<and> ringTimer gs' = ringTimer gs \<and>
         (gameStarted gs \<longrightarrow> gameStarted gs')"
proof (cases c)
  case (Connection r1 r2)
  then show ?thesis using assms connection_ring by simp
next
  case (Move x z a)
  then show ?thesis using assms move_ring [of sid x z a gs] by auto
next
  case (Shoot now shots)
  then show ?thesis using assms shoot_ring [of sid now shots gs] by auto
next
  case (Molotov now x z r)
  then show ?thesis using assms molotov_ring [of sid now x z r gs] by auto
next
  case (ToggleFlashlight on)
  then show ?thesis using assms toggleFlashlight_ring [of sid on gs] by auto
next
  case (TakeDamage amount f)
  then show ?thesis using assms takeDamage_ring [of sid amount f gs] by auto
next
  case (Respawn r)
  then show ?thesis using assms respawn_ring by simp
next
  case (Chat m)
  then show ?thesis using assms chat_ring [of sid m gs] by auto
next
  case Disconnect
  then show ?thesis using assms disconnect_ring [of sid gs] by auto
qed

lemma projectilesStep_ring:
  "ringRadius (fst (projectilesStep delta gs)) = ringRadius gs \<and>
   ringTimer (fst (projectilesStep delta gs)) = ringTimer gs \<and>
   gameStarted (fst (projectilesStep delta gs)) = gameStarted gs"
  by (simp add: projectilesStep_def Let_def split: prod.splits)

lemma fireStep_ring:
  "ringRadius (fst (fireStep delta gs)) = ringRadius gs \<and>
   ringTimer (fst (fireStep delta gs)) = ringTimer gs \<and>
   gameStarted (fst (fireStep delta gs)) = gameStarted gs"
  by (simp add: fireStep_def Let_def split: prod.splits)

lemma ringStep_ring:
  "ringTimer (fst (ringStep delta gs)) =
     (if gameStarted gs \<and> ringRadius gs > 5 then ringTimer gs - delta else ringTimer gs) \<and>
   ringRadius (fst (ringStep delta gs)) =
     (if gameStarted gs \<and> ringRadius gs > 5
      then max 5 (80 - (7 * 60 - (ringTimer gs - delta)) * shrinkRate) else ringRadius gs) \<and>
   gameStarted (fst (ringStep delta gs)) = gameStarted gs"
  by (simp add: ringStep_def Let_def split: prod.splits)

lemma tick_ring:
  "ringTimer (fst (tick now lt gs)) =
     (if gameStarted gs \<and> ringRadius gs > 5
      then ringTimer gs - real_of_int (now - lt) / 1000 else ringTimer gs) \<and>
   ringRadius (fst (tick now lt gs)) =
     (if gameStarted gs \<and> ringRadius gs > 5
      then max 5 (80 - (7 * 60 - (ringTimer gs - real_of_int (now - lt) / 1000)) * shrinkRate)
      else ringRadius gs) \<and>
   gameStarted (fst (tick now lt gs)) = gameStarted gs"
proof -
  obtain gs1 es1 where r: "ringStep (real_of_int (now - lt) / 1000) gs = (gs1, es1)"
    by (cases "ringStep (real_of_int (now - lt) / 1000) gs")
  obtain gs2 es3 where p: "projectilesStep (real_of_int (now - lt) / 1000) gs1 = (gs2, es3)"
    by (cases "projectilesStep (real_of_int (now - lt) / 1000) gs1")
  obtain gs3 es4 where f: "fireStep (real_of_int (now - lt) / 1000) gs2 = (gs3, es4)"
    by (cases "fireStep (real_of_int (now - lt) / 1000) gs2")
  have t: "fst (tick now lt gs) = gs3" using r p f by (simp add: tick_def Let_def)
  have 1: "ringTimer gs3 = ringTimer gs1 \<and> ringRadius gs3 = ringRadius gs1 \<and> gameStarted gs3 = gameStarted gs1"
    using projectilesStep_ring [of "real_of_int (now - lt) / 1000" gs1]
      fireStep_ring [of "real_of_int (now - lt) / 1000" gs2] p f by simp
  show ?thesis
    unfolding t using 1 ringStep_ring [of "real_of_int (now - lt) / 1000" gs] r by simp
qed

lemma shrinkRate_pos: "0 < shrinkRate"
  by (simp add: shrinkRate_def)

lemma tick_ringFormula: "ringFormula gs \<Longrightarrow> ringFormula (fst (tick now lt gs))"
  using tick_ring [of now lt gs] by (simp add: ringFormula_def)

lemma tick_radius_mono:
  assumes "ringFormula gs" "lt \<le> now"
  shows "ringRadius (fst (tick now lt gs)) \<le> ringRadius gs"
proof (cases "gameStarted gs \<and> ringRadius gs > 5")
  case False
  then have "ringRadius (fst (tick now lt gs)) = ringRadius gs"
    using tick_ring [of now lt gs] by auto
  then show ?thesis by simp
next
  case True
  have d: "0 \<le> real_of_int (now - lt) / 1000" using assms(2) by simp
  then have "(7 * 60 - ringTimer gs) * shrinkRate
           \<le> (7 * 60 - (ringTimer gs - real_of_int (now - lt) / 1000)) * shrinkRate"
    using shrinkRate_pos by (simp add: mult_right_mono)
  moreover have "ringRadius (fst (tick now lt gs)) =
     max 5 (80 - (7 * 60 - (ringTimer gs - real_of_int (now - lt) / 1000)) * shrinkRate)"
    using True tick_ring [of now lt gs] by simp
  moreover have "ringRadius gs = max 5 (80 - (7 * 60 - ringTimer gs) * shrinkRate)"
    using assms(1) by (simp add: ringFormula_def)
  ultimately show ?thesis by linarith
qed

lemma step_Command:
  "step (Command sid c) sv = Inr (sv', es) \<Longrightarrow>
     \<exists>gs. handle sid c (game sv) = Inr (gs, es) \<and> sv' = sv\<lparr>game := gs\<rparr>"
  by (auto split: sum.splits)

lemma step_Tick:
  "step (Tick now) sv = Inr (sv', es) \<Longrightarrow>
     sv' = \<lparr>game = fst (tick now (lastTick sv) (game sv)), lastTick = now\<rparr>"
  by (auto split: prod.splits)

lemma step_ringFormula:
  assumes "step i sv = Inr (sv', es)" "ringFormula (game sv)"
  shows "ringFormula (game sv')"
proof (cases i)
  case (Command sid c)
  then obtain gs where "handle sid c (game sv) = Inr (gs, es)" "sv' = sv\<lparr>game := gs\<rparr>"
    using assms(1) step_Command by blast
  then show ?thesis using assms(2) handle_ring [of sid c "game sv" gs es]
    by (simp add: ringFormula_def)
next
  case (Tick now)
  then have "sv' = \<lparr>game = fst (tick now (lastTick sv) (game sv)), lastTick = now\<rparr>"
    using assms(1) step_Tick by blast
  then show ?thesis using assms(2) tick_ringFormula by simp
qed

lemma step_radius_mono:
  assumes "step i sv = Inr (sv', es)" "ringFormula (game sv)" "clockMonotone (lastTick sv) [i]"
  shows "ringRadius (game sv') \<le> ringRadius (game sv)"
proof (cases i)
  case (Command sid c)
  then obtain gs where "handle sid c (game sv) = Inr (gs, es)" "sv' = sv\<lparr>game := gs\<rparr>"
    using assms(1) step_Command by blast
  then show ?thesis using handle_ring [of sid c "game sv" gs es] by simp
next
  case (Tick now)
  then have "sv' = \<lparr>game = fst (tick now (lastTick sv) (game sv)), lastTick = now\<rparr>"
    using assms(1) step_Tick by blast
  moreover have "lastTick sv \<le> now" using assms(3) Tick by simp
  ultimately show ?thesis using assms(2) tick_radius_mono by simp
qed

lemma clockMonotone_Cons:
  "clockMonotone t (i # ins) \<longleftrightarrow>
     clockMonotone t [i] \<and> clockMonotone (case i of Tick now \<Rightarrow> now | Command sid c \<Rightarrow> t) ins"
  by (cases i) simp_all

lemma step_lastTick:
  "step i sv = Inr (sv', es) \<Longrightarrow>
     lastTick sv' = (case i of Tick now \<Rightarrow> now | Command sid c \<Rightarrow> lastTick sv)"
proof (cases i)
  case (Command sid c)
  assume "step i sv = Inr (sv', es)"
  with Command show ?thesis using step_Command by fastforce
next
  case (Tick now)
  assume "step i sv = Inr (sv', es)"
  with Tick show ?thesis using step_Tick by fastforce
qed

lemma run_Cons:
  "run (i # ins) sv = Inr (sv', es) \<Longrightarrow>
     \<exists>sv1 es1 es2. step i sv = Inr (sv1, es1) \<and> run ins sv1 = Inr (sv', es2) \<and> es = es1 @ es2"
  by (auto split: sum.splits)

lemma run_ringFormula:
  "run ins sv = Inr (sv', es) \<Longrightarrow> ringFormula (game sv) \<Longrightarrow> clockMonotone (lastTick sv) ins \<Longrightarrow>
     ringFormula (game sv') \<and> ringRadius (game sv') \<le> ringRadius (game sv)"
proof (induction ins arbitrary: sv es)
  case Nil
  then show ?case by simp
next
  case (Cons i ins)
  from Cons.prems(1) obtain sv1 es1 es2 where
    s: "step i sv = Inr (sv1, es1)" and r: "run ins sv1 = Inr (sv', es2)"
    using run_Cons by blast
  have m1: "clockMonotone (lastTick sv) [i]" and m2: "clockMonotone (lastTick sv1) ins"
    using Cons.prems(3) step_lastTick [OF s] by (simp_all add: clockMonotone_Cons [of _ i ins])
  have f1: "ringFormula (game sv1)" using s Cons.prems(2) by (rule step_ringFormula)
  have le1: "ringRadius (game sv1) \<le> ringRadius (game sv)"
    using s Cons.prems(2) m1 by (rule step_radius_mono)
  from Cons.IH [OF r f1 m2] le1 show ?case by simp
qed

lemma run_clockMonotone_append:
  "run ins1 sv = Inr (sv1, es1) \<Longrightarrow> clockMonotone (lastTick sv) (ins1 @ ins2) \<Longrightarrow>
     clockMonotone (lastTick sv) ins1 \<and> clockMonotone (lastTick sv1) ins2"
proof (induction ins1 arbitrary: sv es1)
  case Nil
  then show ?case by simp
next
  case (Cons i ins)
  from Cons.prems(1) obtain sva esa esb where
    s: "step i sv = Inr (sva, esa)" and r: "run ins sva = Inr (sv1, esb)"
    using run_Cons by blast
  have m1: "clockMonotone (lastTick sv) [i]" and m2: "clockMonotone (lastTick sva) (ins @ ins2)"
    using Cons.prems(2) step_lastTick [OF s]
    by (simp_all add: clockMonotone_Cons [of _ i "ins @ ins2"])
  from Cons.IH [OF r m2] m1 step_lastTick [OF s] show ?case
    by (simp add: clockMonotone_Cons [of _ i ins])
qed

lemma run_ringFormula_any:
  "run ins sv = Inr (sv', es) \<Longrightarrow> ringFormula (game sv) \<Longrightarrow> ringFormula (game sv')"
proof (induction ins arbitrary: sv es)
  case Nil
  then show ?case by simp
next
  case (Cons i ins)
  from Cons.prems(1) obtain sv1 es1 es2 where
    s: "step i sv = Inr (sv1, es1)" and r: "run ins sv1 = Inr (sv', es2)"
    using run_Cons by blast
  have "ringFormula (game sv1)" using s Cons.prems(2) by (rule step_ringFormula)
  with r show ?case by (rule Cons.IH)
qed

lemma step_floor_stays:
  assumes "step i sv = Inr (sv', es)" and "ringRadius (game sv) = 5"
  shows "ringRadius (game sv') = 5"
proof (cases i)
  case (Command sid c)
  then obtain gs where "handle sid c (game sv) = Inr (gs, es)" "sv' = sv\<lparr>game := gs\<rparr>"
    using assms(1) step_Command by blast
  then show ?thesis using assms(2) handle_ring [of sid c "game sv" gs es] by simp
next
  case (Tick now)
  then have "sv' = \<lparr>game = fst (tick now (lastTick sv) (game sv)), lastTick = now\<rparr>"
    using assms(1) step_Tick by blast
  then show ?thesis using assms(2) tick_ring [of now "lastTick sv" "game sv"] by simp
qed

lemma run_floor_stays:
  "run ins sv = Inr (sv', es) \<Longrightarrow> ringRadius (game sv) = 5 \<Longrightarrow> ringRadius (game sv') = 5"
proof (induction ins arbitrary: sv es)
  case Nil
  then show ?case by simp
next
  case (Cons i ins)
  from Cons.prems(1) obtain sv1 es1 es2 where
    s: "step i sv = Inr (sv1, es1)" and r: "run ins sv1 = Inr (sv', es2)"
    using run_Cons by blast
  have "ringRadius (game sv1) = 5" using s Cons.prems(2) by (rule step_floor_stays)
  with r show ?case by (rule Cons.IH)
qed

lemma ringClockD:
  assumes "ringClock t0 sv"
  shows "gameStarted (game sv)" and "ringFormula (game sv)" and "t0 \<le> lastTick sv"
    and "ringRadius (game sv) > 5 \<Longrightarrow>
           ringTimer (game sv) = 7 * 60 - real_of_int (lastTick sv - t0) / 1000"
  using assms unfolding ringClock_def by blast+

lemma ringClockI:
  assumes "gameStarted (game sv)" and "ringFormula (game sv)" and "t0 \<le> lastTick sv"
    and "ringRadius (game sv) > 5 \<Longrightarrow>
           ringTimer (game sv) = 7 * 60 - real_of_int (lastTick sv - t0) / 1000"
  shows "ringClock t0 sv"
  unfolding ringClock_def using assms by blast

lemma step_ringClock:
  assumes "step i sv = Inr (sv', es)" "ringClock t0 sv" "clockMonotone (lastTick sv) [i]"
  shows "ringClock t0 sv'"
proof (cases i)
  case (Command sid c)
  then obtain gs where "handle sid c (game sv) = Inr (gs, es)" "sv' = sv\<lparr>game := gs\<rparr>"
    using assms(1) step_Command by blast
  then have same: "ringRadius (game sv') = ringRadius (game sv)" "ringTimer (game sv') = ringTimer (game sv)"
      "gameStarted (game sv) \<longrightarrow> gameStarted (game sv')" "lastTick sv' = lastTick sv"
    using handle_ring [of sid c "game sv" gs es] by simp_all
  show ?thesis
  proof (rule ringClockI)
    show "gameStarted (game sv')" using same(3) ringClockD(1) [OF assms(2)] by blast
    show "ringFormula (game sv')" using assms(1) ringClockD(2) [OF assms(2)] by (rule step_ringFormula)
    show "t0 \<le> lastTick sv'" using same(4) ringClockD(3) [OF assms(2)] by simp
    show "ringTimer (game sv') = 7 * 60 - real_of_int (lastTick sv' - t0) / 1000"
      if "ringRadius (game sv') > 5"
      using that same ringClockD(4) [OF assms(2)] by simp
  qed
next
  case (Tick now)
  let ?gs = "fst (tick now (lastTick sv) (game sv))"
  have sv': "sv' = \<lparr>game = ?gs, lastTick = now\<rparr>"
    using assms(1) Tick step_Tick by blast
  have le: "lastTick sv \<le> now" using assms(3) Tick by simp
  have started: "gameStarted (game sv)" and form: "ringFormula (game sv)"
    and t0: "t0 \<le> lastTick sv"
    and timer: "ringRadius (game sv) > 5 \<Longrightarrow>
        ringTimer (game sv) = 7 * 60 - real_of_int (lastTick sv - t0) / 1000"
    using ringClockD [OF assms(2)] by blast+
  have a: "gameStarted ?gs" using started tick_ring [of now "lastTick sv" "game sv"] by simp
  have b: "ringFormula ?gs" using form by (rule tick_ringFormula)
  have c: "t0 \<le> now" using t0 le by simp
  have d: "ringTimer ?gs = 7 * 60 - real_of_int (now - t0) / 1000" if big: "ringRadius ?gs > 5"
  proof -
    have "ringRadius ?gs \<le> ringRadius (game sv)" using form le by (rule tick_radius_mono)
    with big have old: "ringRadius (game sv) > 5" by simp
    then have "ringTimer ?gs = ringTimer (game sv) - real_of_int (now - lastTick sv) / 1000"
      using started tick_ring [of now "lastTick sv" "game sv"] by simp
    also have "\<dots> = 7 * 60 - real_of_int (lastTick sv - t0) / 1000 - real_of_int (now - lastTick sv) / 1000"
      using timer [OF old] by simp
    also have "\<dots> = 7 * 60 - real_of_int (now - t0) / 1000"
      by (simp add: field_simps)
    finally show ?thesis .
  qed
  show ?thesis
  proof (rule ringClockI)
    show "gameStarted (game sv')" using a by (simp add: sv')
    show "ringFormula (game sv')" using b by (simp add: sv')
    show "t0 \<le> lastTick sv'" using c by (simp add: sv')
    show "ringTimer (game sv') = 7 * 60 - real_of_int (lastTick sv' - t0) / 1000"
      if "ringRadius (game sv') > 5"
      using that d by (simp add: sv')
  qed
qed

lemma ringClock_floor:
  assumes "ringClock t0 sv" "420000 < lastTick sv - t0"
  shows "ringRadius (game sv) = 5"
proof (rule ccontr)
  assume ne: "ringRadius (game sv) \<noteq> 5"
  have form: "ringRadius (game sv) = max 5 (80 - (7 * 60 - ringTimer (game sv)) * shrinkRate)"
    using ringClockD(2) [OF assms(1)] unfolding ringFormula_def .
  then have big: "ringRadius (game sv) > 5" using ne by linarith
  then have timer: "ringTimer (game sv) = 7 * 60 - real_of_int (lastTick sv - t0) / 1000"
    by (rule ringClockD(4) [OF assms(1)])
  have "real_of_int (lastTick sv - t0) \<ge> 420000" using assms(2) by linarith
  then have "ringTimer (game sv) \<le> 0" using timer by simp
  then have "(7 * 60 - ringTimer (game sv)) * shrinkRate \<ge> 420 * shrinkRate"
    using shrinkRate_pos by (simp add: mult_right_mono)
  moreover have "420 * shrinkRate = 75" by (simp add: shrinkRate_def)
  ultimately have "80 - (7 * 60 - ringTimer (game sv)) * shrinkRate \<le> 5" by linarith
  then show False using form big by linarith
qed

lemma run_ringClock:
  "run ins sv = Inr (sv', es) \<Longrightarrow> ringClock t0 sv \<Longrightarrow> clockMonotone (lastTick sv) ins \<Longrightarrow>
     ringClock t0 sv'"
proof (induction ins arbitrary: sv es)
  case Nil
  then show ?case by simp
next
  case (Cons i ins)
  from Cons.prems(1) obtain sv1 es1 es2 where
    s: "step i sv = Inr (sv1, es1)" and r: "run ins sv1 = Inr (sv', es2)"
    using run_Cons by blast
  have m1: "clockMonotone (lastTick sv) [i]" and m2: "clockMonotone (lastTick sv1) ins"
    using Cons.prems(3) step_lastTick [OF s] by (simp_all add: clockMonotone_Cons [of _ i ins])
  have c1: "ringClock t0 sv1" using s Cons.prems(2) m1 by (rule step_ringClock)
  show ?case using r c1 m2 by (rule Cons.IH)
qed

lemma ringFormula_initial: "ringFormula (game (initialServer t0))"
  by (simp add: ringFormula_def initialServer_def initialState_def)

subsection \<open>Bounds on the stored health\<close>








lemma advance_damage [simp]: "pr_damage (advance delta pr) = pr_damage pr"
  by (simp add: advance_def)























subsection \<open>Dead players stay as they are for the rest of a tick\<close>

lemma deadKept_refl: "deadKept ps ps"
  by (simp add: deadKept_def list_all2_refl)

lemma deadKept_trans:
  assumes "deadKept ps ps1" and "deadKept ps1 ps2"
  shows "deadKept ps ps2"
  unfolding deadKept_def
  by (rule list_all2_trans [OF _ assms(1) [unfolded deadKept_def] assms(2) [unfolded deadKept_def]])
     auto

lemma deadKept_Cons:
  "deadKept (a # ps) (b # ps') \<longleftrightarrow>
     fst a = fst b \<and> (p_health (snd a) \<le> 0 \<longrightarrow> b = a) \<and> deadKept ps ps'"
  by (simp add: deadKept_def)

lemma deadKept_keys: "deadKept ps ps' \<Longrightarrow> map fst ps' = map fst ps"
  unfolding deadKept_def by (induction ps ps' rule: list_all2_induct) simp_all

lemma deadKept_mem:
  "deadKept ps ps' \<Longrightarrow> (i, q) \<in> set ps \<Longrightarrow> p_health q \<le> 0 \<Longrightarrow> (i, q) \<in> set ps'"
  unfolding deadKept_def by (induction ps ps' rule: list_all2_induct) auto

lemma ringDamageLoop_deadKept: "deadKept ps (fst (ringDamageLoop delta radius ps))"
  by (induction ps)
     (auto simp: deadKept_refl deadKept_Cons ringDamagePlayer_def Let_def split: prod.splits)

lemma playerCollision_deadKept: "deadKept ps (fst (playerCollision pr ps))"
  by (induction ps)
     (auto simp: deadKept_refl deadKept_Cons Let_def split: prod.splits)

lemma fireDamageLoop_deadKept: "deadKept ps (fst (fireDamageLoop delta fire ps))"
  by (induction ps)
     (auto simp: deadKept_refl deadKept_Cons fireDamagePlayer_def Let_def split: prod.splits)

lemma projectileStep_deadKept: "deadKept ps (fst (snd (projectileStep delta pr0 ps)))"
  using playerCollision_deadKept [of ps "advance delta pr0"]
  by (auto simp: projectileStep_def Let_def deadKept_refl split: prod.splits)

lemma projectileLoop_deadKept: "deadKept ps (fst (snd (projectileLoop delta prs ps)))"
proof (induction prs arbitrary: ps)
  case Nil
  show ?case by (simp add: deadKept_refl)
next
  case (Cons pr0 rest)
  obtain pr ps1 es1 rm1 where s: "projectileStep delta pr0 ps = (pr, ps1, es1, rm1)"
    by (metis prod_cases4)
  obtain rest' ps2 es2 rm2 where l: "projectileLoop delta rest ps1 = (rest', ps2, es2, rm2)"
    by (metis prod_cases4)
  have "deadKept ps ps1" using projectileStep_deadKept [of ps delta pr0] s by simp
  moreover have "deadKept ps1 ps2" using Cons.IH [of ps1] l by simp
  ultimately have "deadKept ps ps2" by (rule deadKept_trans)
  then show ?case using s l by simp
qed

lemma fireLoop_deadKept: "deadKept ps (fst (snd (fireLoop delta fs ps)))"
proof (induction fs arbitrary: ps)
  case Nil
  show ?case by (simp add: deadKept_refl)
next
  case (Cons f fs)
  let ?f = "f\<lparr>f_timeLeft := f_timeLeft f - TICK_RATE\<rparr>"
  obtain ps1 es1 where d: "fireDamageLoop delta ?f ps = (ps1, es1)"
    by (cases "fireDamageLoop delta ?f ps")
  have 1: "deadKept ps ps1" using fireDamageLoop_deadKept [of ps delta ?f] d by simp
  have 2: "deadKept ps1 (fst (snd (fireLoop delta fs ps1)))" by (rule Cons.IH)
  have 3: "deadKept ps (fst (snd (fireLoop delta fs ps1)))" using 1 2 by (rule deadKept_trans)
  show ?case
    using Cons.IH [of ps] 3 d by (auto simp: Let_def split: prod.splits)
qed

lemma playerCollision_fatal:
  "(t, PlayerHit i h prid owner) \<in> set (fst (snd (playerCollision pr ps))) \<Longrightarrow> h \<le> 0 \<Longrightarrow>
     \<exists>q. (i, q) \<in> set (fst (playerCollision pr ps)) \<and> p_health q = 0"
proof (induction ps)
  case Nil
  then show ?case by simp
next
  case (Cons ip ps)
  show ?case
  proof (cases "fst ip \<noteq> pr_ownerId pr \<and> p_health (snd ip) > 0 \<and>
         dist2d (pr_x pr - p_x (snd ip)) (pr_z pr - p_z (snd ip)) < 0.7")
    case True
    with Cons.prems show ?thesis
      by (auto simp: Let_def split: if_splits
               intro!: exI [of _ "(snd ip)\<lparr>p_health := 0\<rparr>"])
  next
    case False
    with Cons.prems have "(t, PlayerHit i h prid owner) \<in> set (fst (snd (playerCollision pr ps)))"
      by (auto split: prod.splits)
    then obtain q where "(i, q) \<in> set (fst (playerCollision pr ps))" "p_health q = 0"
      using Cons.IH Cons.prems(2) by blast
    with False show ?thesis by (auto split: prod.splits)
  qed
qed

lemma projectileStep_fatal:
  "(t, PlayerHit i h prid owner) \<in> set (fst (snd (snd (projectileStep delta pr0 ps)))) \<Longrightarrow> h \<le> 0 \<Longrightarrow>
     \<exists>q. (i, q) \<in> set (fst (snd (projectileStep delta pr0 ps))) \<and> p_health q = 0"
  using playerCollision_fatal [of t i h prid owner "advance delta pr0" ps]
  by (auto simp: projectileStep_def Let_def split: prod.splits if_splits)

lemma projectileLoop_fatal:
  "(t, PlayerHit i h prid owner) \<in> set (fst (snd (snd (projectileLoop delta prs ps)))) \<Longrightarrow> h \<le> 0 \<Longrightarrow>
     \<exists>q. (i, q) \<in> set (fst (snd (projectileLoop delta prs ps))) \<and> p_health q = 0"
proof (induction prs arbitrary: ps)
  case Nil
  then show ?case by simp
next
  case (Cons pr0 rest)
  obtain pr ps1 es1 rm1 where s: "projectileStep delta pr0 ps = (pr, ps1, es1, rm1)"
    by (metis prod_cases4)
  obtain rest' ps2 es2 rm2 where l: "projectileLoop delta rest ps1 = (rest', ps2, es2, rm2)"
    by (metis prod_cases4)
  have res: "fst (snd (projectileLoop delta (pr0 # rest) ps)) = ps2"
    using s l by simp
  from Cons.prems(1) s l consider
    (step) "(t, PlayerHit i h prid owner) \<in> set es1" | (later) "(t, PlayerHit i h prid owner) \<in> set es2"
    by auto
  then show ?case
  proof cases
    case step
    then obtain q where q: "(i, q) \<in> set ps1" "p_health q = 0"
      using projectileStep_fatal [of t i h prid owner delta pr0 ps] s Cons.prems(2) by auto
    have "deadKept ps1 ps2" using projectileLoop_deadKept [of ps1 delta rest] l by simp
    then have "(i, q) \<in> set ps2" using q by (simp add: deadKept_mem)
    then show ?thesis unfolding res using q(2) by blast
  next
    case later
    then show ?thesis unfolding res using Cons.IH [of ps1] l Cons.prems(2) by simp
  qed
qed

lemma fireDamageLoop_fatal:
  "(t, FireDamage h) \<in> set (snd (fireDamageLoop delta fire ps)) \<Longrightarrow> t = ToOne i \<Longrightarrow> h \<le> 0 \<Longrightarrow>
     \<exists>q. (i, q) \<in> set (fst (fireDamageLoop delta fire ps)) \<and> p_health q = 0"
proof (induction ps)
  case Nil
  then show ?case by simp
next
  case (Cons ip ps)
  obtain p' es1 where d: "fireDamagePlayer delta fire (fst ip) (snd ip) = (p', es1)"
    by (cases "fireDamagePlayer delta fire (fst ip) (snd ip)")
  obtain ps' es2 where l: "fireDamageLoop delta fire ps = (ps', es2)"
    by (cases "fireDamageLoop delta fire ps")
  from Cons.prems(1) d l consider
    (here) "(t, FireDamage h) \<in> set es1" | (later) "(t, FireDamage h) \<in> set es2"
    by auto
  then show ?case
  proof cases
    case here
    then have "fst ip = i \<and> p_health p' = 0"
      using d Cons.prems(2,3) by (auto simp: fireDamagePlayer_def Let_def split: if_splits)
    then show ?thesis using d l by auto
  next
    case later
    then obtain q where "(i, q) \<in> set ps'" "p_health q = 0"
      using Cons.IH Cons.prems(2,3) l by auto
    then show ?thesis using d l by auto
  qed
qed

lemma fireLoop_fatal:
  "(ToOne i, FireDamage h) \<in> set (fst (snd (snd (fireLoop delta fs ps)))) \<Longrightarrow> h \<le> 0 \<Longrightarrow>
     \<exists>q. (i, q) \<in> set (fst (snd (fireLoop delta fs ps))) \<and> p_health q = 0"
proof (induction fs arbitrary: ps)
  case Nil
  then show ?case by simp
next
  case (Cons f fs)
  let ?f = "f\<lparr>f_timeLeft := f_timeLeft f - TICK_RATE\<rparr>"
  show ?case
  proof (cases "f_timeLeft ?f \<le> 0")
    case True
    then show ?thesis using Cons.prems Cons.IH [of ps]
      by (auto simp: Let_def split: prod.splits)
  next
    case False
    obtain ps1 es1 where d: "fireDamageLoop delta ?f ps = (ps1, es1)"
      by (cases "fireDamageLoop delta ?f ps")
    obtain fs' ps2 es2 rm where l: "fireLoop delta fs ps1 = (fs', ps2, es2, rm)"
      by (metis prod_cases4)
    have res: "fst (snd (fireLoop delta (f # fs) ps)) = ps2"
      and evs: "fst (snd (snd (fireLoop delta (f # fs) ps))) = es1 @ es2"
      using False d l by (simp_all add: Let_def)
    from Cons.prems(1) consider
      (here) "(ToOne i, FireDamage h) \<in> set es1" | (later) "(ToOne i, FireDamage h) \<in> set es2"
      unfolding evs by auto
    then show ?thesis
    proof cases
      case here
      then obtain q where q: "(i, q) \<in> set ps1" "p_health q = 0"
        using fireDamageLoop_fatal [of "ToOne i" h delta ?f ps i] d Cons.prems(2) by auto
      have "deadKept ps1 ps2" using fireLoop_deadKept [of ps1 delta fs] l by simp
      then have "(i, q) \<in> set ps2" using q by (simp add: deadKept_mem)
      then show ?thesis unfolding res using q(2) by blast
    next
      case later
      then show ?thesis unfolding res using Cons.IH [of ps1] l Cons.prems(2) by simp
    qed
  qed
qed

lemma ringDamageLoop_events:
  "e \<in> set (snd (ringDamageLoop delta radius ps)) \<Longrightarrow> \<not> isHit e \<and> \<not> isFireDamage e"
  by (induction ps)
     (auto simp: ringDamagePlayer_def isHit_def isFireDamage_def Let_def
           split: prod.splits if_splits)

lemma playerCollision_events:
  "e \<in> set (fst (snd (playerCollision pr ps))) \<Longrightarrow> \<not> isFireDamage e"
  by (induction ps) (auto simp: isFireDamage_def Let_def split: prod.splits if_splits)

lemma projectileLoop_events:
  "e \<in> set (fst (snd (snd (projectileLoop delta prs ps)))) \<Longrightarrow> \<not> isFireDamage e"
proof (induction prs arbitrary: ps)
  case Nil
  then show ?case by simp
next
  case (Cons pr0 rest)
  obtain pr ps1 es1 rm1 where s: "projectileStep delta pr0 ps = (pr, ps1, es1, rm1)"
    by (metis prod_cases4)
  obtain rest' ps2 es2 rm2 where l: "projectileLoop delta rest ps1 = (rest', ps2, es2, rm2)"
    by (metis prod_cases4)
  have "e \<in> set es1 \<Longrightarrow> \<not> isFireDamage e"
    using s playerCollision_events [of e "advance delta pr0" ps]
    by (auto simp: projectileStep_def Let_def split: prod.splits if_splits)
  moreover have "e \<in> set es2 \<Longrightarrow> \<not> isFireDamage e" using Cons.IH [of ps1] l by simp
  ultimately show ?case using Cons.prems s l by auto
qed

lemma fireDamageLoop_events:
  "e \<in> set (snd (fireDamageLoop delta fire ps)) \<Longrightarrow> \<not> isHit e"
  by (induction ps)
     (auto simp: fireDamagePlayer_def isHit_def Let_def split: prod.splits if_splits)

lemma fireLoop_events:
  "e \<in> set (fst (snd (snd (fireLoop delta fs ps)))) \<Longrightarrow> \<not> isHit e"
proof (induction fs arbitrary: ps)
  case Nil
  then show ?case by simp
next
  case (Cons f fs)
  let ?f = "f\<lparr>f_timeLeft := f_timeLeft f - TICK_RATE\<rparr>"
  obtain ps1 es1 where d: "fireDamageLoop delta ?f ps = (ps1, es1)"
    by (cases "fireDamageLoop delta ?f ps")
  show ?case
    using Cons.prems Cons.IH [of ps] Cons.IH [of ps1] d
      fireDamageLoop_events [of e delta ?f ps]
    by (auto simp: Let_def split: prod.splits if_splits)
qed

lemma ringStep_facts:
  "deadKept (players gs) (players (fst (ringStep delta gs))) \<and>
   (\<forall>e \<in> set (snd (ringStep delta gs)). \<not> isHit e \<and> \<not> isFireDamage e)"
proof (cases "gameStarted gs \<and> ringRadius gs > 5")
  case False
  then show ?thesis by (auto simp: ringStep_def deadKept_refl)
next
  case True
  let ?r = "max 5 (80 - (7 * 60 - (ringTimer gs - delta)) * shrinkRate)"
  obtain ps es where l: "ringDamageLoop delta ?r (players gs) = (ps, es)"
    by (cases "ringDamageLoop delta ?r (players gs)")
  have "deadKept (players gs) ps" using ringDamageLoop_deadKept [of "players gs" delta ?r] l by simp
  moreover have "\<forall>e \<in> set es. \<not> isHit e \<and> \<not> isFireDamage e"
    using ringDamageLoop_events [of _ delta ?r "players gs"] l by simp
  ultimately show ?thesis using True l by (simp add: ringStep_def Let_def)
qed

lemma projectilesStep_facts:
  "players (fst (projectilesStep delta gs)) =
     fst (snd (projectileLoop delta (projectiles gs) (players gs))) \<and>
   (\<forall>e \<in> set (snd (projectilesStep delta gs)).
      (isHit e \<longrightarrow> e \<in> set (fst (snd (snd (projectileLoop delta (projectiles gs) (players gs)))))) \<and>
      \<not> isFireDamage e)"
proof -
  obtain prs ps es rm where l: "projectileLoop delta (projectiles gs) (players gs) = (prs, ps, es, rm)"
    by (metis prod_cases4)
  have "\<forall>e \<in> set es. \<not> isFireDamage e"
    using projectileLoop_events [of _ delta "projectiles gs" "players gs"] l by simp
  then show ?thesis using l
    by (auto simp: projectilesStep_def Let_def isHit_def isFireDamage_def)
qed

lemma fireStep_facts:
  "players (fst (fireStep delta gs)) =
     fst (snd (fireLoop delta (fireZones gs) (players gs))) \<and>
   (\<forall>e \<in> set (snd (fireStep delta gs)).
      (isFireDamage e \<longrightarrow> e \<in> set (fst (snd (snd (fireLoop delta (fireZones gs) (players gs)))))) \<and>
      \<not> isHit e)"
proof -
  obtain fs ps es rm where l: "fireLoop delta (fireZones gs) (players gs) = (fs, ps, es, rm)"
    by (metis prod_cases4)
  have "\<forall>e \<in> set es. \<not> isHit e"
    using fireLoop_events [of _ delta "fireZones gs" "players gs"] l by simp
  then show ?thesis using l
    by (auto simp: fireStep_def Let_def isHit_def isFireDamage_def)
qed

lemma ringBroadcast_events:
  "e \<in> set (ringBroadcast now gs) \<Longrightarrow> \<not> isHit e \<and> \<not> isFireDamage e"
  by (auto simp: ringBroadcast_def isHit_def isFireDamage_def split: if_splits)

lemma tick_fatal:
  assumes dist: "distinct (map fst (players gs))"
    and ev: "(ToAll, PlayerHit i h prid owner) \<in> set (snd (tick now lt gs)) \<or>
             (ToOne i, FireDamage h) \<in> set (snd (tick now lt gs))"
    and fatal: "h \<le> 0"
  shows "\<exists>q. map_of (players (fst (tick now lt gs))) i = Some q \<and> p_health q = 0"
proof -
  let ?d = "real_of_int (now - lt) / 1000"
  obtain gs1 es1 where r: "ringStep ?d gs = (gs1, es1)" by (cases "ringStep ?d gs")
  obtain gs2 es3 where p: "projectilesStep ?d gs1 = (gs2, es3)" by (cases "projectilesStep ?d gs1")
  obtain gs3 es4 where f: "fireStep ?d gs2 = (gs3, es4)" by (cases "fireStep ?d gs2")
  have t: "tick now lt gs = (gs3, es1 @ ringBroadcast now gs1 @ es3 @ es4)"
    using r p f by (simp add: tick_def Let_def)
  let ?loopP = "projectileLoop ?d (projectiles gs1) (players gs1)"
  let ?loopF = "fireLoop ?d (fireZones gs2) (players gs2)"
  have k1: "deadKept (players gs) (players gs1)" using ringStep_facts [of gs ?d] r by simp
  have p2: "players gs2 = fst (snd ?loopP)" using projectilesStep_facts [of ?d gs1] p by simp
  have p3: "players gs3 = fst (snd ?loopF)" using fireStep_facts [of ?d gs2] f by simp
  have k2: "deadKept (players gs1) (players gs2)"
    unfolding p2 by (rule projectileLoop_deadKept)
  have k3: "deadKept (players gs2) (players gs3)"
    unfolding p3 by (rule fireLoop_deadKept)
  have "map fst (players gs3) = map fst (players gs)"
    using deadKept_keys [OF k1] deadKept_keys [OF k2] deadKept_keys [OF k3] by simp
  then have d3: "distinct (map fst (players gs3))" using dist by simp
  have e1: "\<forall>e \<in> set es1. \<not> isHit e \<and> \<not> isFireDamage e" using ringStep_facts [of gs ?d] r by simp
  have e2: "\<forall>e \<in> set (ringBroadcast now gs1). \<not> isHit e \<and> \<not> isFireDamage e"
    using ringBroadcast_events by blast
  have e3: "\<forall>e \<in> set es3. (isHit e \<longrightarrow> e \<in> set (fst (snd (snd ?loopP)))) \<and> \<not> isFireDamage e"
    using projectilesStep_facts [of ?d gs1] p by simp
  have e4: "\<forall>e \<in> set es4. (isFireDamage e \<longrightarrow> e \<in> set (fst (snd (snd ?loopF)))) \<and> \<not> isHit e"
    using fireStep_facts [of ?d gs2] f by simp
  have "\<exists>q. (i, q) \<in> set (players gs3) \<and> p_health q = 0"
    using ev
  proof
    let ?e = "(ToAll, PlayerHit i h prid owner)"
    assume "?e \<in> set (snd (tick now lt gs))"
    moreover have "isHit ?e" by (simp add: isHit_def)
    ultimately have "?e \<in> set (fst (snd (snd ?loopP)))"
      unfolding t using e1 e2 e3 e4 by auto
    then obtain q where q: "(i, q) \<in> set (players gs2)" "p_health q = 0"
      using projectileLoop_fatal [OF _ fatal] p2 by metis
    then have "(i, q) \<in> set (players gs3)" using k3 by (simp add: deadKept_mem)
    then show ?thesis using q(2) by blast
  next
    let ?e = "(ToOne i, FireDamage h)"
    assume "?e \<in> set (snd (tick now lt gs))"
    moreover have "isFireDamage ?e" by (simp add: isFireDamage_def)
    ultimately have "?e \<in> set (fst (snd (snd ?loopF)))"
      unfolding t using e1 e2 e3 e4 by auto
    then show ?thesis using fireLoop_fatal [OF _ fatal] p3 by metis
  qed
  then obtain q where "(i, q) \<in> set (players gs3)" "p_health q = 0" by blast
  then have "map_of (players gs3) i = Some q \<and> p_health q = 0"
    using d3 by simp
  then show ?thesis unfolding t by auto
qed

subsection \<open>The first player hit and the players inside a fire zone\<close>

lemma playerCollision_miss:
  "\<not> collides pr ip \<Longrightarrow>
     playerCollision pr (ip # rest) =
       (ip # fst (playerCollision pr rest), fst (snd (playerCollision pr rest)),
        snd (snd (playerCollision pr rest)))"
  by (auto simp: collides_def Let_def split: prod.splits)

lemma playerCollision_first_hit:
  assumes "list_all (\<lambda>q. \<not> collides pr q) pre" and "collides pr (i, p)"
  shows "playerCollision pr (pre @ (i, p) # post) =
           (pre @ (i, p\<lparr>p_health := (if p_health p - pr_damage pr \<le> 0 then 0
                                        else p_health p - pr_damage pr)\<rparr>) # post,
            (ToAll, PlayerHit i (p_health p - pr_damage pr) (pr_id pr) (pr_ownerId pr)) #
            (if p_health p - pr_damage pr \<le> 0
             then [(ToAll, PlayerDied i (Some (pr_ownerId pr)))] else []),
            True)"
  using assms
proof (induction pre)
  case Nil
  then show ?case by (simp add: collides_def Let_def)
next
  case (Cons a pre)
  then show ?case by (simp add: playerCollision_miss del: playerCollision.simps)
qed

lemma fireDamageLoop_append:
  "fireDamageLoop delta fire (pre @ post) =
     (fst (fireDamageLoop delta fire pre) @ fst (fireDamageLoop delta fire post),
      snd (fireDamageLoop delta fire pre) @ snd (fireDamageLoop delta fire post))"
  by (induction pre) (simp_all split: prod.splits)

lemma fireDamageLoop_at:
  assumes "inFire fire p"
  shows "fireDamageLoop delta fire (pre @ (i, p) # post) =
           (fst (fireDamageLoop delta fire pre) @
              (i, p\<lparr>p_health := (if p_health p - 15 * delta \<le> 0 then 0
                                    else p_health p - 15 * delta)\<rparr>) #
              fst (fireDamageLoop delta fire post),
            snd (fireDamageLoop delta fire pre) @
              (ToOne i, FireDamage (p_health p - 15 * delta)) #
              (if p_health p - 15 * delta \<le> 0
               then [(ToAll, PlayerDied i (Some ''fire''))] else []) @
              snd (fireDamageLoop delta fire post))"
  using assms
  by (simp add: fireDamageLoop_append [of delta fire pre] fireDamagePlayer_def inFire_def Let_def
           split: prod.splits)

subsection \<open>A fatal hit and a fatal fire notification inside a whole tick\<close>

lemma projectileLoop_append:
  "projectileLoop delta (a @ b) ps =
     (let (a', ps1, es1, rm1) = projectileLoop delta a ps;
          (b', ps2, es2, rm2) = projectileLoop delta b ps1
      in (a' @ b', ps2, es1 @ es2, rm1 @ rm2))"
proof (induction a arbitrary: ps)
  case Nil
  show ?case by (simp split: prod.splits)
next
  case (Cons pr0 a)
  obtain pr ps0 es0 rm0 where s: "projectileStep delta pr0 ps = (pr, ps0, es0, rm0)"
    by (metis prod_cases4)
  show ?case using s Cons.IH [of ps0] by (simp add: Let_def split: prod.splits)
qed

lemma fireLoop_append:
  "fireLoop delta (a @ b) ps =
     (let (a', ps1, es1, rm1) = fireLoop delta a ps;
          (b', ps2, es2, rm2) = fireLoop delta b ps1
      in (a' @ b', ps2, es1 @ es2, rm1 @ rm2))"
proof (induction a arbitrary: ps)
  case Nil
  show ?case by (simp split: prod.splits)
next
  case (Cons f a)
  let ?f = "f\<lparr>f_timeLeft := f_timeLeft f - TICK_RATE\<rparr>"
  obtain ps0 es0 where d: "fireDamageLoop delta ?f ps = (ps0, es0)"
    by (cases "fireDamageLoop delta ?f ps")
  show ?case using d Cons.IH [of ps] Cons.IH [of ps0]
    by (simp add: Let_def split: prod.splits)
qed

lemma fireDamageLoop_notice:
  assumes "(i, p) \<in> set ps" and "inFire fire p"
  shows "(ToOne i, FireDamage (p_health p - 15 * delta)) \<in> set (snd (fireDamageLoop delta fire ps)) \<and>
         (p_health p - 15 * delta \<le> 0 \<longrightarrow>
            (ToAll, PlayerDied i (Some ''fire'')) \<in> set (snd (fireDamageLoop delta fire ps)) \<and>
            (i, p\<lparr>p_health := 0\<rparr>) \<in> set (fst (fireDamageLoop delta fire ps)))"
proof -
  from assms(1) obtain pre post where ps: "ps = pre @ (i, p) # post"
    by (meson split_list)
  show ?thesis unfolding ps using fireDamageLoop_at [OF assms(2), of delta pre i post] by simp
qed

lemma advance_owner [simp]: "pr_ownerId (advance delta pr0) = pr_ownerId pr0"
  by (simp add: advance_def)

lemma projectileStep_fatal_hit:
  assumes nw: "\<not> hitsWall delta pr0"
    and miss: "list_all (\<lambda>q. \<not> collides (advance delta pr0) q) pre"
    and hit: "collides (advance delta pr0) (i, p)"
    and fatal: "p_health p - pr_damage pr0 \<le> 0"
  shows "fst (snd (projectileStep delta pr0 (pre @ (i, p) # post))) =
           pre @ (i, p\<lparr>p_health := 0\<rparr>) # post \<and>
         fst (snd (snd (projectileStep delta pr0 (pre @ (i, p) # post)))) =
           [(ToAll, PlayerHit i (p_health p - pr_damage pr0) (pr_id pr0) (pr_ownerId pr0)),
            (ToAll, PlayerDied i (Some (pr_ownerId pr0)))]"
  using nw fatal playerCollision_first_hit [OF miss hit, of post]
  by (simp add: projectileStep_def hitsWall_def Let_def)

lemma projectilesStep_fatal_hit:
  assumes prs: "projectiles gs = prs1 @ pr0 # prs2"
    and nw: "\<not> hitsWall delta pr0"
    and mid: "fst (snd (projectileLoop delta prs1 (players gs))) = pre @ (i, p) # post"
    and miss: "list_all (\<lambda>q. \<not> collides (advance delta pr0) q) pre"
    and hit: "collides (advance delta pr0) (i, p)"
    and fatal: "p_health p - pr_damage pr0 \<le> 0"
  shows "(ToAll, PlayerHit i (p_health p - pr_damage pr0) (pr_id pr0) (pr_ownerId pr0))
           \<in> set (snd (projectilesStep delta gs)) \<and>
         (ToAll, PlayerDied i (Some (pr_ownerId pr0))) \<in> set (snd (projectilesStep delta gs)) \<and>
         (i, p\<lparr>p_health := 0\<rparr>) \<in> set (players (fst (projectilesStep delta gs)))"
proof -
  let ?hit = "(ToAll, PlayerHit i (p_health p - pr_damage pr0) (pr_id pr0) (pr_ownerId pr0))"
  let ?died = "(ToAll, PlayerDied i (Some (pr_ownerId pr0)))"
  obtain a' ps1 es1 rm1 where l1: "projectileLoop delta prs1 (players gs) = (a', ps1, es1, rm1)"
    by (metis prod_cases4)
  have ps1: "ps1 = pre @ (i, p) # post" using mid l1 by simp
  obtain pr psa esa rma where s: "projectileStep delta pr0 ps1 = (pr, psa, esa, rma)"
    by (metis prod_cases4)
  have psa: "psa = pre @ (i, p\<lparr>p_health := 0\<rparr>) # post" and esa: "esa = [?hit, ?died]"
    using projectileStep_fatal_hit [OF nw miss hit fatal, of post] s ps1 by simp_all
  obtain b' ps2 es2 rm2 where l2: "projectileLoop delta prs2 psa = (b', ps2, es2, rm2)"
    by (metis prod_cases4)
  have "deadKept psa ps2" using projectileLoop_deadKept [of psa delta prs2] l2 by simp
  moreover have "(i, p\<lparr>p_health := 0\<rparr>) \<in> set psa" by (simp add: psa)
  ultimately have mem: "(i, p\<lparr>p_health := 0\<rparr>) \<in> set ps2" by (simp add: deadKept_mem)
  have whole: "projectileLoop delta (projectiles gs) (players gs) =
                 (a' @ pr # b', ps2, es1 @ esa @ es2, rm1 @ rma @ rm2)"
    unfolding prs by (simp add: projectileLoop_append l1 s l2)
  show ?thesis
    using whole mem esa by (auto simp: projectilesStep_def Let_def)
qed

lemma fireStep_fatal_notice:
  assumes fs: "fireZones gs = fs1 @ f # fs2"
    and act: "0 < f_timeLeft f - TICK_RATE"
    and mid: "(i, p) \<in> set (fst (snd (fireLoop delta fs1 (players gs))))"
    and cov: "inFire f p"
    and fatal: "p_health p - 15 * delta \<le> 0"
  shows "(ToOne i, FireDamage (p_health p - 15 * delta)) \<in> set (snd (fireStep delta gs)) \<and>
         (ToAll, PlayerDied i (Some ''fire'')) \<in> set (snd (fireStep delta gs)) \<and>
         (i, p\<lparr>p_health := 0\<rparr>) \<in> set (players (fst (fireStep delta gs)))"
proof -
  let ?f = "f\<lparr>f_timeLeft := f_timeLeft f - TICK_RATE\<rparr>"
  obtain a' ps1 es1 rm1 where l1: "fireLoop delta fs1 (players gs) = (a', ps1, es1, rm1)"
    by (metis prod_cases4)
  have m1: "(i, p) \<in> set ps1" using mid l1 by simp
  obtain psa esa where d: "fireDamageLoop delta ?f ps1 = (psa, esa)"
    by (cases "fireDamageLoop delta ?f ps1")
  have cov': "inFire ?f p" using cov by (simp add: inFire_def)
  have n: "(ToOne i, FireDamage (p_health p - 15 * delta)) \<in> set esa"
          "(ToAll, PlayerDied i (Some ''fire'')) \<in> set esa"
          "(i, p\<lparr>p_health := 0\<rparr>) \<in> set psa"
    using fireDamageLoop_notice [OF m1 cov', of delta] fatal d by simp_all
  obtain b' ps2 es2 rm2 where l2: "fireLoop delta fs2 psa = (b', ps2, es2, rm2)"
    by (metis prod_cases4)
  have "deadKept psa ps2" using fireLoop_deadKept [of psa delta fs2] l2 by simp
  then have mem: "(i, p\<lparr>p_health := 0\<rparr>) \<in> set ps2" using n(3) by (simp add: deadKept_mem)
  have one: "fireLoop delta (f # fs2) ps1 = (?f # b', ps2, esa @ es2, rm2)"
    using act d l2 by (simp add: Let_def)
  have whole: "fireLoop delta (fireZones gs) (players gs) =
                 (a' @ ?f # b', ps2, es1 @ esa @ es2, rm1 @ rm2)"
    unfolding fs by (simp add: fireLoop_append l1 one del: fireLoop.simps)
  show ?thesis
    using whole mem n(1,2) by (auto simp: fireStep_def Let_def)
qed

lemma tick_events:
  "snd (tick now lt gs) =
     snd (ringStep (tickDelta now lt) gs) @ ringBroadcast now (afterRing now lt gs) @
     snd (projectilesStep (tickDelta now lt) (afterRing now lt gs)) @
     snd (fireStep (tickDelta now lt) (afterProjectiles now lt gs))"
  by (simp add: tick_def tickDelta_def afterRing_def afterProjectiles_def Let_def
        split: prod.splits)

lemma tick_state:
  "fst (tick now lt gs) = fst (fireStep (tickDelta now lt) (afterProjectiles now lt gs))"
  by (simp add: tick_def tickDelta_def afterRing_def afterProjectiles_def Let_def
        split: prod.splits)

subsection \<open>Evaluation on concrete states\<close>

lemma dist2d_zero [simp]: "dist2d 0 0 = 0"
  by (simp add: dist2d_def)

lemma dist2d_hit_radius: "dist2d dx dz * 10 < 7 \<longleftrightarrow> dx * dx + dz * dz < 49 / 100"
  using dist2d_less_iff [of dx dz "7 / 10"] by auto

lemmas tick_eval = tick_def ringStep_def ringBroadcast_def projectilesStep_def fireStep_def
  ringDamagePlayer_def fireDamagePlayer_def projectileStep_def advance_def
  checkWallCollision_def walls_def insideWall_def TICK_RATE_def shrinkRate_def
  dist2d_eval dist2d_hit_radius Let_def initialState_def

lemmas proj_eval = projectileStep_def advance_def hitsWall_def outOfMap_def collides_def
  checkWallCollision_def walls_def insideWall_def dist2d_eval dist2d_hit_radius Let_def
  removalBatch_def projectilesStep_def initialState_def

lemmas step_eval = tickDelta_def afterRing_def afterProjectiles_def ringStep_def
  projectilesStep_def ringDamagePlayer_def projectileStep_def advance_def hitsWall_def
  collides_def inFire_def checkWallCollision_def walls_def insideWall_def TICK_RATE_def
  shrinkRate_def dist2d_eval dist2d_hit_radius Let_def initialState_def

lemma step_Tick_eq:
  "step (Tick now) sv = Inr (\<lparr>game = fst (tick now (lastTick sv) (game sv)), lastTick = now\<rparr>,
                             snd (tick now (lastTick sv) (game sv)))"
  by (simp split: prod.splits)

lemma run_Tick:
  "run [Tick now] sv = Inr (\<lparr>game = fst (tick now (lastTick sv) (game sv)), lastTick = now\<rparr>,
                            snd (tick now (lastTick sv) (game sv)))"
  by (simp add: step_Tick_eq del: step.simps)

lemma run_append:
  "run ins1 sv = Inr (sv1, es1) \<Longrightarrow> run ins2 sv1 = Inr (sv2, es2) \<Longrightarrow>
     run (ins1 @ ins2) sv = Inr (sv2, es1 @ es2)"
proof (induction ins1 arbitrary: sv es1)
  case Nil
  then show ?case by simp
next
  case (Cons i ins)
  from Cons.prems(1) obtain sva esa esb where
    s: "step i sv = Inr (sva, esa)" and r: "run ins sva = Inr (sv1, esb)" and e: "es1 = esa @ esb"
    using run_Cons by blast
  have "run (ins @ ins2) sva = Inr (sv2, esb @ es2)" using r Cons.prems(2) by (rule Cons.IH)
  then show ?case using s e by simp
qed

subsection \<open>The ring damage\<close>

lemma ringStep_at_floor: "ringRadius gs \<le> 5 \<Longrightarrow> ringStep delta gs = (gs, [])"
  by (simp add: ringStep_def)

lemma ringDamagePlayer_outside:
  "0 < p_health p \<Longrightarrow> radius < dist2d (p_x p) (p_z p) \<Longrightarrow>
     ringDamagePlayer delta radius i p =
       (p\<lparr>p_health := max 0 (p_health p - 5 * delta)\<rparr>,
        if p_health p - 5 * delta \<le> 0 then [(ToAll, PlayerDied i (Some ''ring''))]
        else [(ToOne i, RingDamage (p_health p - 5 * delta))])"
  by (simp add: ringDamagePlayer_def Let_def max_def)

section \<open>The specified properties\<close>

text \<open>
  C1. On a tick of a started game, every living player farther from the map center than
  the current radius should lose 5 times delta, clamped at 0, with one death event
  attributed to \<open>ring\<close> on reaching 0, at every radius down to the floor 5. The code
  nests the damage loop inside the conditional of the shrink, \<open>ringRadius > 5\<close>
  (\<open>ringStep_at_floor\<close>), so once the radius has reached the floor the loop no longer
  runs: here the radius is 5, the player stands at distance 50 with health 100, 100 ms
  pass, and the tick leaves the state as it was and emits nothing. While the radius is
  still above 5 at the start of the tick, the loop body does what is described
  (\<open>ringDamagePlayer_outside\<close>).
\<close>

theorem ring_damage_stops_at_floor: "tick 100 0 gsFloor = (gsFloor, [])"
  by (simp add: tick_eval gsFloor_def playerA_def)

text \<open>
  C2. On a tick, a living player should take at most one fire-zone damage of 15 times
  delta, also inside two or more active zones (the first qualifying zone wins). The server
  loop runs over the zones and, for each zone, over the players, without leaving the loop
  and without a record of the players already damaged, so every covering zone damages the
  player (\<open>fireStep_players\<close>); the fire loop of the client (Scene3D.tsx) leaves its
  loop after the first covering zone, "un seul tick de degats par frame meme si dans
  plusieurs zones". Here two zones of radius 3 lie at the origin, the player
  stands at (1, 1) with health 100, and 100 ms pass: the tick sends two \<open>fireDamage\<close>
  notifications, 98.5 and 97, and stores the health 97, where one application gives 98.5.
\<close>

theorem overlapping_fire_zones_damage_twice:
  "tick 100 0 gsTwoFires =
     (gsTwoFires\<lparr>players := [(''a'', playerB\<lparr>p_health := 97\<rparr>)],
                 fireZones := [fireA\<lparr>f_timeLeft := 14950 / 3\<rparr>, fireB\<lparr>f_timeLeft := 14950 / 3\<rparr>],
                 ringRadius := 4479 / 56, ringTimer := 4199 / 10\<rparr>,
      [(ToOne ''a'', FireDamage 98.5), (ToOne ''a'', FireDamage 97)])"
  by (simp add: tick_eval gsTwoFires_def playerB_def fireA_def fireB_def)

text \<open>
  C3 (as the code has it). A projectile that is inside a wall after its move is collected
  for removal exactly once, leaves the players untouched and produces no event. A
  projectile that is not inside a wall is collected once if it hits a player and once more
  if it is outside the map bounds: the two causes are not exclusive. When the projectile
  ids of the world are distinct, an id occurs at most twice in the batch of a tick, and
  exactly once for a projectile that hit a wall. No projectile whose id is in the batch
  is left in the world after the step, so none of them can produce an event on a later
  tick.
\<close>

theorem projectile_removal_causes:
  "(hitsWall delta pr0 \<longrightarrow>
      projectileStep delta pr0 ps = (advance delta pr0, ps, [], [pr_id pr0])) \<and>
   (\<not> hitsWall delta pr0 \<longrightarrow>
      snd (snd (snd (projectileStep delta pr0 ps))) =
        (if list_ex (collides (advance delta pr0)) ps then [pr_id pr0] else []) @
        (if outOfMap delta pr0 then [pr_id pr0] else [])) \<and>
   (distinct (map pr_id (projectiles gs)) \<longrightarrow>
      count_list (removalBatch delta gs) i \<le> 2 \<and>
      (\<forall>pr \<in> set (projectiles gs). hitsWall delta pr \<longrightarrow>
         count_list (removalBatch delta gs) (pr_id pr) = 1)) \<and>
   (\<forall>pr \<in> set (projectiles (fst (projectilesStep delta gs))).
      pr_id pr \<notin> set (removalBatch delta gs))"
proof (intro conjI impI ballI)
  assume "hitsWall delta pr0"
  then show "projectileStep delta pr0 ps = (advance delta pr0, ps, [], [pr_id pr0])"
    by (rule projectileStep_wall)
next
  assume "\<not> hitsWall delta pr0"
  then show "snd (snd (snd (projectileStep delta pr0 ps))) =
        (if list_ex (collides (advance delta pr0)) ps then [pr_id pr0] else []) @
        (if outOfMap delta pr0 then [pr_id pr0] else [])"
    by (simp add: projectileStep_removals)
next
  assume "distinct (map pr_id (projectiles gs))"
  then show "count_list (removalBatch delta gs) i \<le> 2"
    using projectileLoop_removals_count [of "projectiles gs" delta "players gs" i]
    by (simp add: removalBatch_def)
next
  fix pr
  assume "distinct (map pr_id (projectiles gs))" "pr \<in> set (projectiles gs)" "hitsWall delta pr"
  then show "count_list (removalBatch delta gs) (pr_id pr) = 1"
    using projectileLoop_removals_count [of "projectiles gs" delta "players gs" "pr_id pr"]
    by (auto simp: removalBatch_def)
next
  fix pr
  assume "pr \<in> set (projectiles (fst (projectilesStep delta gs)))"
  then show "pr_id pr \<notin> set (removalBatch delta gs)"
    by (rule projectilesStep_removed_gone)
qed

text \<open>
  A world with a projectile that moves into the east wall, one that hits a player standing
  outside the map bounds, and one that flies on.
\<close>

theorem projectile_removal_causes_witness:
  "projectileStep 0.1 projWall (players gsWall) =
     (advance 0.1 projWall, players gsWall, [], [''b-1-1'']) \<and>
   snd (snd (snd (projectileStep 0.1 projOut (players gsWall)))) = [''b-1-0'', ''b-1-0''] \<and>
   count_list (removalBatch 0.1 gsWall) ''b-1-0'' \<le> 2 \<and>
   count_list (removalBatch 0.1 gsWall) ''b-1-1'' = 1 \<and>
   ''b-1-3'' \<notin> set (removalBatch 0.1 gsWall)"
proof -
  have w: "hitsWall 0.1 projWall" by (simp add: proj_eval projWall_def)
  have nw: "\<not> hitsWall 0.1 projOut" by (simp add: proj_eval projOut_def)
  have hit: "list_ex (collides (advance 0.1 projOut)) (players gsWall)"
    by (simp add: proj_eval projOut_def gsWall_def playerA_def)
  have out: "outOfMap 0.1 projOut" by (simp add: proj_eval projOut_def)
  have d: "distinct (map pr_id (projectiles gsWall))"
    by (simp add: gsWall_def projWall_def projOut_def projFly_def)
  have m: "projWall \<in> set (projectiles gsWall)" by (simp add: gsWall_def)
  have rest: "projectiles (fst (projectilesStep 0.1 gsWall)) = [advance 0.1 projFly]"
    by (simp add: proj_eval gsWall_def projWall_def projOut_def projFly_def playerA_def)
  have ids: "pr_id projWall = ''b-1-1''" "pr_id projOut = ''b-1-0''" "pr_id projFly = ''b-1-3''"
    by (simp_all add: projWall_def projOut_def projFly_def)
  show ?thesis
    using projectile_removal_causes [of "0.1" projWall "players gsWall" gsWall "''b-1-0''"]
      projectile_removal_causes [of "0.1" projOut "players gsWall" gsWall "''b-1-0''"]
      w nw hit out d m rest ids
    by auto
qed

text \<open>
  Counterexample to C3 as stated (an id appears at most once in the batch): a player has
  walked to (0, 51), beyond the map bound \<open>|z| > 50\<close> and outside every wall; a
  projectile of another player at the same place hits that player and is out of the map
  on the same tick, and its id is broadcast twice.
\<close>

theorem projectile_double_removal_counterexample:
  "tick 100 0 gsOut =
     (gsOut\<lparr>players := [(''a'', playerA\<lparr>p_z := 51, p_health := 90\<rparr>)], projectiles := [],
            ringRadius := 4479 / 56, ringTimer := 4199 / 10\<rparr>,
      [(ToAll, PlayerHit ''a'' 90 ''b-1-0'' ''b''),
       (ToAll, ProjectilesRemoved [''b-1-0'', ''b-1-0''])])"
  by (simp add: tick_eval gsOut_def playerA_def projOut_def)

text \<open>
  C4 (as the code has it). Along every run of the server from its initial state, the
  radius starts at 80, never drops below the floor 5, and once it is 5 it stays 5. As long
  as the timestamps of the ticks do not decrease, it never increases from one reachable
  state to a later one and so never exceeds 80; and if the game has started in a state in
  which no shrink has happened yet (the timer still at 420 s), then in every later state
  whose last tick is more than 420 000 ms after the last tick of that state the radius is
  exactly 5. (The last tick before the game started is no later than the start itself, so
  this covers every moment after 420 s of game time.) At 420 s to the millisecond the
  interpolation is 5 itself and the value the program stores is 5 up to the rounding of
  its doubles only, so that moment is left out; from the next millisecond on the clamp at 5
  decides, by a margin far above that rounding.
\<close>

theorem ring_radius_bounds:
  assumes "run ins1 (initialServer t0) = Inr (sv1, es1)"
      and "run ins2 sv1 = Inr (sv2, es2)"
  shows "ringRadius (game (initialServer t0)) = 80 \<and>
         5 \<le> ringRadius (game sv2) \<and>
         (ringRadius (game sv1) = 5 \<longrightarrow> ringRadius (game sv2) = 5) \<and>
         (clockMonotone t0 (ins1 @ ins2) \<longrightarrow>
            ringRadius (game sv2) \<le> ringRadius (game sv1) \<and> ringRadius (game sv2) \<le> 80 \<and>
            (gameStarted (game sv1) \<and> ringTimer (game sv1) = 7 * 60 \<and>
             420000 < lastTick sv2 - lastTick sv1 \<longrightarrow> ringRadius (game sv2) = 5))"
proof -
  have l0: "lastTick (initialServer t0) = t0" by (simp add: initialServer_def)
  have r0: "ringRadius (game (initialServer t0)) = 80"
    by (simp add: initialServer_def initialState_def)
  have f1: "ringFormula (game sv1)"
    using assms(1) ringFormula_initial by (rule run_ringFormula_any)
  have f2: "ringFormula (game sv2)" using assms(2) f1 by (rule run_ringFormula_any)
  have lo: "5 \<le> ringRadius (game sv2)" using f2 unfolding ringFormula_def by linarith
  have st: "ringRadius (game sv1) = 5 \<Longrightarrow> ringRadius (game sv2) = 5"
    using assms(2) by (rule run_floor_stays)
  have mono: "ringRadius (game sv2) \<le> ringRadius (game sv1) \<and> ringRadius (game sv2) \<le> 80 \<and>
            (gameStarted (game sv1) \<and> ringTimer (game sv1) = 7 * 60 \<and>
             420000 < lastTick sv2 - lastTick sv1 \<longrightarrow> ringRadius (game sv2) = 5)"
    if c: "clockMonotone t0 (ins1 @ ins2)"
  proof -
    have m: "clockMonotone t0 ins1" "clockMonotone (lastTick sv1) ins2"
      using run_clockMonotone_append [OF assms(1), of ins2] c l0 by simp_all
    have le1: "ringRadius (game sv1) \<le> 80"
      using run_ringFormula [OF assms(1) ringFormula_initial] m(1) l0 r0 by simp
    have le2: "ringRadius (game sv2) \<le> ringRadius (game sv1)"
      using run_ringFormula [OF assms(2) f1 m(2)] by simp
    have fl: "ringRadius (game sv2) = 5"
      if s: "gameStarted (game sv1) \<and> ringTimer (game sv1) = 7 * 60 \<and>
             420000 < lastTick sv2 - lastTick sv1"
    proof -
      have "ringClock (lastTick sv1) sv1" using s f1 by (intro ringClockI) simp_all
      then have "ringClock (lastTick sv1) sv2" using assms(2) m(2) run_ringClock by blast
      then show ?thesis using s ringClock_floor by blast
    qed
    show ?thesis using le1 le2 fl by simp
  qed
  show ?thesis using r0 lo st mono by blast
qed

text \<open>
  A first connection at time 0, a tick at 420 001 ms, at which the radius is 5, and one
  more tick at 421 000 ms.
\<close>

theorem ring_radius_bounds_witness:
  "\<exists>sv1 es1 sv2 es2 sv3 es3.
     run [Command ''a'' (Connection 0.3 0.5)] (initialServer 0) = Inr (sv1, es1) \<and>
     run [Tick 420001] sv1 = Inr (sv2, es2) \<and>
     run [Tick 421000] sv2 = Inr (sv3, es3) \<and>
     ringRadius (game sv2) \<le> ringRadius (game sv1) \<and>
     ringRadius (game sv2) = 5 \<and> ringRadius (game sv3) = 5"
proof -
  let ?c = "Command ''a'' (Connection 0.3 0.5)"
  have "\<exists>sv1 es1. run [?c] (initialServer 0) = Inr (sv1, es1) \<and>
          gameStarted (game sv1) \<and> ringTimer (game sv1) = 7 * 60 \<and> lastTick sv1 = 0"
    by (simp add: initialServer_def initialState_def connection_def getRandomSpawn_def
          spawnPoints_def Let_def)
  then obtain sv1 es1 where
    r1: "run [?c] (initialServer 0) = Inr (sv1, es1)" and
    s: "gameStarted (game sv1)" "ringTimer (game sv1) = 7 * 60" "lastTick sv1 = 0"
    by blast
  let ?sv2 = "\<lparr>game = fst (tick 420001 (lastTick sv1) (game sv1)), lastTick = 420001\<rparr>"
  let ?es2 = "snd (tick 420001 (lastTick sv1) (game sv1))"
  have r2: "run [Tick 420001] sv1 = Inr (?sv2, ?es2)" by (rule run_Tick)
  have m2: "clockMonotone 0 ([?c] @ [Tick 420001])" by simp
  have e: "gameStarted (game sv1) \<and> ringTimer (game sv1) = 7 * 60 \<and>
           420000 < lastTick ?sv2 - lastTick sv1"
    using s by simp
  have a: "ringRadius (game ?sv2) \<le> ringRadius (game sv1) \<and> ringRadius (game ?sv2) = 5"
    using ring_radius_bounds [OF r1 r2] m2 e by blast
  let ?sv3 = "\<lparr>game = fst (tick 421000 (lastTick ?sv2) (game ?sv2)), lastTick = 421000\<rparr>"
  let ?es3 = "snd (tick 421000 (lastTick ?sv2) (game ?sv2))"
  have r3: "run [Tick 421000] ?sv2 = Inr (?sv3, ?es3)" by (rule run_Tick)
  have r12: "run ([?c] @ [Tick 420001]) (initialServer 0) = Inr (?sv2, es1 @ ?es2)"
    using r1 r2 by (rule run_append)
  have b: "ringRadius (game ?sv3) = 5"
    using ring_radius_bounds [OF r12 r3] a by blast
  show ?thesis using r1 r2 r3 a b by blast
qed

text \<open>
  Counterexample to C4 as stated (non-increasing across every sequence of ticks): the
  server module is loaded at time 28 000, a player connects, and the next tick reads the
  clock at 0, as after a clock that was set back by 28 s. \<open>delta\<close> is -28, the timer
  goes from 420 to 448 and the radius from 80 to 85.
\<close>

theorem ring_radius_clock_regression_counterexample:
  "run [Command ''a'' (Connection 0.3 0.5), Tick 0] (initialServer 28000) =
     Inr (\<lparr>game = initialState\<lparr>players := [(''a'', playerJoined)],
                                 ringRadius := 85, ringTimer := 448, gameStarted := True\<rparr>,
           lastTick = 0\<rparr>,
          [(ToOne ''a'', Init ''a'' [playerJoined] [] [] 80 420),
           (ToOthers ''a'', PlayerJoined playerJoined),
           (ToAll, RingUpdate 85 448)])"
  by (simp add: initialServer_def connection_def getRandomSpawn_def spawnPoints_def
        playerJoined_def tick_eval)

text \<open>
  C5. A move command from an existing player whose proposed position is at Euclidean
  distance 2 or more from the stored position changes nothing and emits nothing. At a
  distance below 2 the stored position and angle become exactly the payload values, every
  other player and every other part of the state stay as they were, and one
  \<open>playerMoved\<close> event goes to all other connections.
\<close>

theorem move_validated:
  assumes "map_of (players gs) sid = Some player"
  shows "(2 \<le> dist2d (x - p_x player) (z - p_z player) \<longrightarrow> move sid x z angle gs = (gs, [])) \<and>
         (dist2d (x - p_x player) (z - p_z player) < 2 \<longrightarrow>
            snd (move sid x z angle gs) = [(ToOthers sid, PlayerMoved sid x z angle)] \<and>
            fst (move sid x z angle gs) = gs\<lparr>players := players (fst (move sid x z angle gs))\<rparr> \<and>
            map_of (players (fst (move sid x z angle gs))) sid =
              Some (player\<lparr>p_x := x, p_z := z, p_angle := angle\<rparr>) \<and>
            (\<forall>other. other \<noteq> sid \<longrightarrow>
               map_of (players (fst (move sid x z angle gs))) other = map_of (players gs) other))"
  using assms by (simp add: move_def Let_def update_conv')

text \<open>
  A player at the origin: a move to (3, 0) is dropped, a move to (1, 1) is accepted.
\<close>

theorem move_validated_witness:
  "move ''a'' 3 0 0.5 gsA = (gsA, []) \<and>
   snd (move ''a'' 1 1 0.5 gsA) = [(ToOthers ''a'', PlayerMoved ''a'' 1 1 0.5)] \<and>
   map_of (players (fst (move ''a'' 1 1 0.5 gsA))) ''a'' =
     Some (playerA\<lparr>p_x := 1, p_z := 1, p_angle := 0.5\<rparr>)"
proof -
  have h: "map_of (players gsA) ''a'' = Some playerA" by (simp add: gsA_def)
  have far: "2 \<le> dist2d (3 - p_x playerA) (0 - p_z playerA)"
    by (simp add: dist2d_eval playerA_def)
  have near: "dist2d (1 - p_x playerA) (1 - p_z playerA) < 2"
    by (simp add: dist2d_eval playerA_def)
  show ?thesis
    using move_validated [OF h, of 3 0 "0.5"] move_validated [OF h, of 1 1 "0.5"] far near
    by simp
qed

text \<open>
  C6. A takeDamage command for a living player stores the health
  \<open>max 0 (health - amount)\<close>; the events emitted contain exactly one \<open>playerDied\<close> event
  when that result is 0 and none otherwise. For a dead or absent player the command
  changes nothing and emits nothing. A player at health 100 taking 150 ends at health 0
  with exactly one \<open>playerDied\<close> event.
\<close>

theorem takeDamage_clamps:
  "(map_of (players gs) sid = Some player \<and> 0 < p_health player \<longrightarrow>
      map_of (players (fst (takeDamage sid amount fromPlayerId gs))) sid =
        Some (player\<lparr>p_health := max 0 (p_health player - amount)\<rparr>) \<and>
      deathEvents (snd (takeDamage sid amount fromPlayerId gs)) =
        (if max 0 (p_health player - amount) = 0 then [(ToAll, PlayerDied sid fromPlayerId)] else [])) \<and>
   (map_of (players gs) sid = None \<or>
    (map_of (players gs) sid = Some player \<and> p_health player \<le> 0) \<longrightarrow>
      takeDamage sid amount fromPlayerId gs = (gs, [])) \<and>
   (map_of (players gs) sid = Some player \<and> p_health player = 100 \<longrightarrow>
      map_of (players (fst (takeDamage sid 150 fromPlayerId gs))) sid = Some (player\<lparr>p_health := 0\<rparr>) \<and>
      deathEvents (snd (takeDamage sid 150 fromPlayerId gs)) = [(ToAll, PlayerDied sid fromPlayerId)])"
  by (auto simp add: takeDamage_def Let_def update_conv' deathEvents_def max_def)

text \<open>
  A player at health 100 taking 150 and taking 30, a dead player, and an absent player.
\<close>

theorem takeDamage_clamps_witness:
  "map_of (players (fst (takeDamage ''a'' 150 None gsA))) ''a'' = Some (playerA\<lparr>p_health := 0\<rparr>) \<and>
   deathEvents (snd (takeDamage ''a'' 150 None gsA)) = [(ToAll, PlayerDied ''a'' None)] \<and>
   map_of (players (fst (takeDamage ''a'' 30 None gsA))) ''a'' = Some (playerA\<lparr>p_health := 70\<rparr>) \<and>
   deathEvents (snd (takeDamage ''a'' 30 None gsA)) = [] \<and>
   takeDamage ''a'' 30 None gsDead = (gsDead, []) \<and>
   takeDamage ''b'' 30 None gsA = (gsA, [])"
proof -
  have h: "map_of (players gsA) ''a'' = Some playerA \<and> 0 < p_health playerA"
    by (simp add: gsA_def playerA_def)
  have h100: "map_of (players gsA) ''a'' = Some playerA \<and> p_health playerA = 100"
    by (simp add: gsA_def playerA_def)
  have d: "map_of (players gsDead) ''a'' = Some (playerA\<lparr>p_health := 0\<rparr>) \<and>
           p_health (playerA\<lparr>p_health := 0\<rparr>) \<le> 0"
    by (simp add: gsDead_def)
  have n: "map_of (players gsA) ''b'' = None" by (simp add: gsA_def)
  show ?thesis
    using takeDamage_clamps [of gsA "''a''" playerA 30 None] h h100
      takeDamage_clamps [of gsDead "''a''" "playerA\<lparr>p_health := 0\<rparr>" 30 None] d
      takeDamage_clamps [of gsA "''b''" playerA 30 None] n
    by (simp add: playerA_def)
qed

text \<open>
  C7. A shoot command from a living player with a payload of N entries appends exactly N
  projectiles to the world, with pairwise distinct ids, each owned by the sending
  connection and carrying the position, velocity and damage of its payload entry, and
  emits one \<open>projectilesFired\<close> event with them. From a missing or dead player the
  command adds nothing and emits nothing.
\<close>

theorem shoot_adds_projectiles:
  "(map_of (players gs) sid = Some player \<and> 0 < p_health player \<longrightarrow>
      (\<exists>new. projectiles (fst (shoot sid now shots gs)) = projectiles gs @ new \<and>
              snd (shoot sid now shots gs) = [(ToAll, ProjectilesFired sid new)] \<and>
              length new = length shots \<and>
              distinct (map pr_id new) \<and>
              (\<forall>p \<in> set new. pr_ownerId p = sid) \<and>
              map (\<lambda>p. (pr_x p, pr_z p, pr_vx p, pr_vz p, pr_damage p)) new =
                map (\<lambda>s. (s_x s, s_z s, s_vx s, s_vz s, s_damage s)) shots)) \<and>
   (map_of (players gs) sid = None \<or>
    (map_of (players gs) sid = Some player \<and> p_health player \<le> 0) \<longrightarrow>
      shoot sid now shots gs = (gs, []))"
proof (intro conjI impI)
  assume a: "map_of (players gs) sid = Some player \<and> 0 < p_health player"
  let ?new = "map (newProjectile sid now) (enumerate 0 shots)"
  have "projectiles (fst (shoot sid now shots gs)) = projectiles gs @ ?new \<and>
        snd (shoot sid now shots gs) = [(ToAll, ProjectilesFired sid ?new)]"
    using a by (simp add: shoot_def Let_def)
  moreover have "length ?new = length shots" by simp
  moreover have "distinct (map pr_id ?new)" by (rule distinct_new_ids)
  moreover have "\<forall>p \<in> set ?new. pr_ownerId p = sid" using newProjectile_owner by blast
  moreover have "map (\<lambda>p. (pr_x p, pr_z p, pr_vx p, pr_vz p, pr_damage p)) ?new =
                map (\<lambda>s. (s_x s, s_z s, s_vx s, s_vz s, s_damage s)) shots"
    by (rule newProjectile_payload)
  ultimately show "\<exists>new. projectiles (fst (shoot sid now shots gs)) = projectiles gs @ new \<and>
              snd (shoot sid now shots gs) = [(ToAll, ProjectilesFired sid new)] \<and>
              length new = length shots \<and>
              distinct (map pr_id new) \<and>
              (\<forall>p \<in> set new. pr_ownerId p = sid) \<and>
              map (\<lambda>p. (pr_x p, pr_z p, pr_vx p, pr_vz p, pr_damage p)) new =
                map (\<lambda>s. (s_x s, s_z s, s_vx s, s_vz s, s_damage s)) shots"
    by blast
next
  assume "map_of (players gs) sid = None \<or>
    (map_of (players gs) sid = Some player \<and> p_health player \<le> 0)"
  then show "shoot sid now shots gs = (gs, [])"
    by (auto simp: shoot_def)
qed

text \<open>
  A payload of three entries from a living, a dead and an absent player.
\<close>

theorem shoot_adds_projectiles_witness:
  "length (projectiles (fst (shoot ''a'' 1000 [shotA, shotA, shotA] gsA))) = 3 \<and>
   distinct (map pr_id (projectiles (fst (shoot ''a'' 1000 [shotA, shotA, shotA] gsA)))) \<and>
   shoot ''a'' 1000 [shotA, shotA, shotA] gsDead = (gsDead, []) \<and>
   shoot ''b'' 1000 [shotA, shotA, shotA] gsA = (gsA, [])"
proof -
  have h: "map_of (players gsA) ''a'' = Some playerA \<and> 0 < p_health playerA"
    by (simp add: gsA_def playerA_def)
  have d: "map_of (players gsDead) ''a'' = Some (playerA\<lparr>p_health := 0\<rparr>) \<and>
           p_health (playerA\<lparr>p_health := 0\<rparr>) \<le> 0"
    by (simp add: gsDead_def)
  have n: "map_of (players gsA) ''b'' = None" by (simp add: gsA_def)
  have e: "projectiles gsA = []" by (simp add: gsA_def initialState_def)
  from shoot_adds_projectiles [of gsA "''a''" playerA 1000 "[shotA, shotA, shotA]"] h e
  have "length (projectiles (fst (shoot ''a'' 1000 [shotA, shotA, shotA] gsA))) = 3 \<and>
        distinct (map pr_id (projectiles (fst (shoot ''a'' 1000 [shotA, shotA, shotA] gsA))))"
    by auto
  then show ?thesis
    using shoot_adds_projectiles [of gsDead "''a''" "playerA\<lparr>p_health := 0\<rparr>" 1000 "[shotA, shotA, shotA]"] d
      shoot_adds_projectiles [of gsA "''b''" playerA 1000 "[shotA, shotA, shotA]"] n
    by simp
qed

text \<open>
  C8. A respawn command issued by a player whose health is above 0 changes nothing and
  emits nothing. Issued at health 0 (with a sample of \<open>Math.random()\<close>, which lies in
  \<open>[0, 1)\<close>) it sets the health to exactly 100, the position to one of the fixed spawn
  points and the angle to 0.
\<close>

theorem respawn_only_when_dead:
  assumes "map_of (players gs) sid = Some player"
  shows "(0 < p_health player \<longrightarrow> respawn sid r gs = Inr (gs, [])) \<and>
         (p_health player = 0 \<and> 0 \<le> r \<and> r < 1 \<longrightarrow>
            (\<exists>gs' es spawn. respawn sid r gs = Inr (gs', es) \<and> spawn \<in> set spawnPoints \<and>
               map_of (players gs') sid =
                 Some (player\<lparr>p_x := fst spawn, p_z := snd spawn, p_health := 100, p_angle := 0\<rparr>)))"
proof (intro conjI impI)
  assume "0 < p_health player"
  then show "respawn sid r gs = Inr (gs, [])" using assms by (simp add: respawn_def)
next
  assume a: "p_health player = 0 \<and> 0 \<le> r \<and> r < 1"
  then obtain spawn where s: "getRandomSpawn r = Some spawn" "spawn \<in> set spawnPoints"
    using getRandomSpawn_in_range by blast
  let ?G = "gs\<lparr>players := AList.update sid
               (player\<lparr>p_x := fst spawn, p_z := snd spawn, p_health := 100, p_angle := 0\<rparr>)
               (players gs)\<rparr>"
  let ?E = "[(ToAll, PlayerRespawned sid (fst spawn) (snd spawn) 100)]"
  have "respawn sid r gs = Inr (?G, ?E) \<and> spawn \<in> set spawnPoints \<and>
        map_of (players ?G) sid =
          Some (player\<lparr>p_x := fst spawn, p_z := snd spawn, p_health := 100, p_angle := 0\<rparr>)"
    using assms a s by (simp add: respawn_def update_conv')
  then show "\<exists>gs' es spawn. respawn sid r gs = Inr (gs', es) \<and> spawn \<in> set spawnPoints \<and>
               map_of (players gs') sid =
                 Some (player\<lparr>p_x := fst spawn, p_z := snd spawn, p_health := 100, p_angle := 0\<rparr>)"
    by blast
qed

text \<open>
  A living and a dead player, with the sample 0.3.
\<close>

theorem respawn_only_when_dead_witness:
  "respawn ''a'' 0.3 gsA = Inr (gsA, []) \<and>
   (\<exists>gs' es spawn. respawn ''a'' 0.3 gsDead = Inr (gs', es) \<and> spawn \<in> set spawnPoints \<and>
      map_of (players gs') ''a'' =
        Some (playerA\<lparr>p_health := 0, p_x := fst spawn, p_z := snd spawn,
                      p_health := 100, p_angle := 0\<rparr>))"
proof -
  have h: "map_of (players gsA) ''a'' = Some playerA" by (simp add: gsA_def)
  have alive: "0 < p_health playerA" by (simp add: playerA_def)
  have d: "map_of (players gsDead) ''a'' = Some (playerA\<lparr>p_health := 0\<rparr>)"
    by (simp add: gsDead_def)
  have dead: "p_health (playerA\<lparr>p_health := 0\<rparr>) = 0 \<and> (0::real) \<le> 0.3 \<and> (0.3::real) < 1"
    by simp
  show ?thesis
    using respawn_only_when_dead [OF h, of "0.3"] alive
      respawn_only_when_dead [OF d, of "0.3"] dead
    by blast
qed




text \<open>
  C10. In a tick, when the turn of a projectile comes that is not inside a wall and the
  first player it collides with has a health that the damage brings to 0 or below, the
  tick broadcasts a \<open>playerHit\<close> event carrying that health minus the damage, unclamped,
  and a \<open>playerDied\<close> event, and the player is stored with health 0 when the tick ends.
  In the same way, when the turn of a still active fire zone comes and a living player
  inside it has a health that 15 times delta brings to 0 or below, the tick sends that
  player a \<open>fireDamage\<close> notification carrying the health minus 15 times delta,
  unclamped, broadcasts \<open>playerDied\<close>, and the player is stored with health 0 when the
  tick ends. And whenever a tick has emitted a \<open>playerHit\<close> or \<open>fireDamage\<close> with a
  value of 0 or below for a player (the keys of the player table being distinct, as those
  of a \<open>Map\<close> are), that player's stored health is 0 when the tick ends.
\<close>

theorem fatal_damage_reports_unclamped_health:
  "(projectiles (afterRing now lt gs) = prsA @ pr # prsB \<and>
    \<not> hitsWall (tickDelta now lt) pr \<and>
    fst (snd (projectileLoop (tickDelta now lt) prsA (players (afterRing now lt gs)))) =
      pre @ (i, p) # post \<and>
    list_all (\<lambda>q. \<not> collides (advance (tickDelta now lt) pr) q) pre \<and>
    collides (advance (tickDelta now lt) pr) (i, p) \<and>
    p_health p - pr_damage pr \<le> 0 \<longrightarrow>
      (ToAll, PlayerHit i (p_health p - pr_damage pr) (pr_id pr) (pr_ownerId pr))
        \<in> set (snd (tick now lt gs)) \<and>
      (ToAll, PlayerDied i (Some (pr_ownerId pr))) \<in> set (snd (tick now lt gs)) \<and>
      (i, p\<lparr>p_health := 0\<rparr>) \<in> set (players (fst (tick now lt gs)))) \<and>
   (fireZones (afterProjectiles now lt gs) = fsA @ f # fsB \<and>
    0 < f_timeLeft f - TICK_RATE \<and>
    (i', p') \<in> set (fst (snd (fireLoop (tickDelta now lt) fsA
                                   (players (afterProjectiles now lt gs))))) \<and>
    inFire f p' \<and>
    p_health p' - 15 * tickDelta now lt \<le> 0 \<longrightarrow>
      (ToOne i', FireDamage (p_health p' - 15 * tickDelta now lt)) \<in> set (snd (tick now lt gs)) \<and>
      (ToAll, PlayerDied i' (Some ''fire'')) \<in> set (snd (tick now lt gs)) \<and>
      (i', p'\<lparr>p_health := 0\<rparr>) \<in> set (players (fst (tick now lt gs)))) \<and>
   (distinct (map fst (players gs)) \<and>
    ((ToAll, PlayerHit j h prid owner) \<in> set (snd (tick now lt gs)) \<or>
     (ToOne j, FireDamage h) \<in> set (snd (tick now lt gs))) \<and> h \<le> 0 \<longrightarrow>
      (\<exists>q. map_of (players (fst (tick now lt gs))) j = Some q \<and> p_health q = 0))"
proof (intro conjI impI)
  let ?d = "tickDelta now lt"
  let ?gs1 = "afterRing now lt gs"
  let ?gs2 = "afterProjectiles now lt gs"
  assume a: "projectiles ?gs1 = prsA @ pr # prsB \<and> \<not> hitsWall ?d pr \<and>
    fst (snd (projectileLoop ?d prsA (players ?gs1))) = pre @ (i, p) # post \<and>
    list_all (\<lambda>q. \<not> collides (advance ?d pr) q) pre \<and>
    collides (advance ?d pr) (i, p) \<and> p_health p - pr_damage pr \<le> 0"
  then have s: "(ToAll, PlayerHit i (p_health p - pr_damage pr) (pr_id pr) (pr_ownerId pr))
                  \<in> set (snd (projectilesStep ?d ?gs1))"
           "(ToAll, PlayerDied i (Some (pr_ownerId pr))) \<in> set (snd (projectilesStep ?d ?gs1))"
           "(i, p\<lparr>p_health := 0\<rparr>) \<in> set (players ?gs2)"
    using projectilesStep_fatal_hit [of ?gs1 prsA pr prsB ?d pre i p post]
    by (simp_all add: afterProjectiles_def)
  have "deadKept (players ?gs2) (players (fst (fireStep ?d ?gs2)))"
    using fireStep_facts [of ?d ?gs2] fireLoop_deadKept [of "players ?gs2" ?d "fireZones ?gs2"]
    by simp
  then have "(i, p\<lparr>p_health := 0\<rparr>) \<in> set (players (fst (fireStep ?d ?gs2)))"
    using s(3) by (simp add: deadKept_mem)
  then show "(i, p\<lparr>p_health := 0\<rparr>) \<in> set (players (fst (tick now lt gs)))"
    by (simp add: tick_events tick_state)
  show "(ToAll, PlayerHit i (p_health p - pr_damage pr) (pr_id pr) (pr_ownerId pr))
          \<in> set (snd (tick now lt gs))"
    using s(1) by (simp add: tick_events tick_state)
  show "(ToAll, PlayerDied i (Some (pr_ownerId pr))) \<in> set (snd (tick now lt gs))"
    using s(2) by (simp add: tick_events tick_state)
next
  let ?d = "tickDelta now lt"
  let ?gs2 = "afterProjectiles now lt gs"
  assume a: "fireZones ?gs2 = fsA @ f # fsB \<and> 0 < f_timeLeft f - TICK_RATE \<and>
    (i', p') \<in> set (fst (snd (fireLoop ?d fsA (players ?gs2)))) \<and>
    inFire f p' \<and> p_health p' - 15 * ?d \<le> 0"
  then have s: "(ToOne i', FireDamage (p_health p' - 15 * ?d)) \<in> set (snd (fireStep ?d ?gs2))"
           "(ToAll, PlayerDied i' (Some ''fire'')) \<in> set (snd (fireStep ?d ?gs2))"
           "(i', p'\<lparr>p_health := 0\<rparr>) \<in> set (players (fst (fireStep ?d ?gs2)))"
    using fireStep_fatal_notice [of ?gs2 fsA f fsB i' p' ?d] by simp_all
  show "(ToOne i', FireDamage (p_health p' - 15 * ?d)) \<in> set (snd (tick now lt gs))"
    using s(1) by (simp add: tick_events tick_state)
  show "(ToAll, PlayerDied i' (Some ''fire'')) \<in> set (snd (tick now lt gs))"
    using s(2) by (simp add: tick_events tick_state)
  show "(i', p'\<lparr>p_health := 0\<rparr>) \<in> set (players (fst (tick now lt gs)))"
    using s(3) by (simp add: tick_events tick_state)
next
  assume "distinct (map fst (players gs)) \<and>
    ((ToAll, PlayerHit j h prid owner) \<in> set (snd (tick now lt gs)) \<or>
     (ToOne j, FireDamage h) \<in> set (snd (tick now lt gs))) \<and> h \<le> 0"
  then show "\<exists>q. map_of (players (fst (tick now lt gs))) j = Some q \<and> p_health q = 0"
    using tick_fatal [of gs j h prid owner now lt] by blast
qed

text \<open>
  One tick of 100 ms: a projectile of damage 150 on a player at health 100 (reported
  health -50), and a fire zone on a player at health 1 (reported health -0.5).
\<close>

theorem fatal_damage_reports_unclamped_health_witness:
  "(ToAll, PlayerHit ''a'' (- 50) ''b-1-2'' ''b'') \<in> set (snd (tick 100 0 gsFatal)) \<and>
   (ToAll, PlayerDied ''a'' (Some ''b'')) \<in> set (snd (tick 100 0 gsFatal)) \<and>
   (''a'', playerA\<lparr>p_health := 0\<rparr>) \<in> set (players (fst (tick 100 0 gsFatal))) \<and>
   (ToOne ''a'', FireDamage (- 0.5)) \<in> set (snd (tick 100 0 gsBurn)) \<and>
   (ToAll, PlayerDied ''a'' (Some ''fire'')) \<in> set (snd (tick 100 0 gsBurn)) \<and>
   (''a'', playerB\<lparr>p_health := 0\<rparr>) \<in> set (players (fst (tick 100 0 gsBurn))) \<and>
   (\<exists>q. map_of (players (fst (tick 100 0 gsBurn))) ''a'' = Some q \<and> p_health q = 0)"
proof -
  have c: "projectiles (afterRing 100 0 gsFatal) = [] @ projFatal # [] \<and>
    \<not> hitsWall (tickDelta 100 0) projFatal \<and>
    fst (snd (projectileLoop (tickDelta 100 0) [] (players (afterRing 100 0 gsFatal)))) =
      [] @ (''a'', playerA) # [] \<and>
    list_all (\<lambda>q. \<not> collides (advance (tickDelta 100 0) projFatal) q) [] \<and>
    collides (advance (tickDelta 100 0) projFatal) (''a'', playerA) \<and>
    p_health playerA - pr_damage projFatal \<le> 0"
    by (simp add: step_eval gsFatal_def playerA_def projFatal_def)
  have f: "fireZones (afterProjectiles 100 0 gsBurn) = [] @ fireA # [] \<and>
    0 < f_timeLeft fireA - TICK_RATE \<and>
    (''a'', playerB\<lparr>p_health := 1\<rparr>)
      \<in> set (fst (snd (fireLoop (tickDelta 100 0) [] (players (afterProjectiles 100 0 gsBurn))))) \<and>
    inFire fireA (playerB\<lparr>p_health := 1\<rparr>) \<and>
    p_health (playerB\<lparr>p_health := 1\<rparr>) - 15 * tickDelta 100 0 \<le> 0"
    by (simp add: step_eval gsBurn_def playerB_def fireA_def)
  have v: "p_health playerA - pr_damage projFatal = - 50" "pr_id projFatal = ''b-1-2''"
    "pr_ownerId projFatal = ''b''"
    "p_health (playerB\<lparr>p_health := 1\<rparr>) - 15 * tickDelta 100 0 = - 0.5"
    by (simp_all add: playerA_def projFatal_def tickDelta_def)
  note T1 = fatal_damage_reports_unclamped_health
            [where now = 100 and lt = 0 and gs = gsFatal and prsA = "[]" and pr = projFatal
               and prsB = "[]" and pre = "[]" and i = "''a''" and p = playerA and post = "[]"]
  note T2 = fatal_damage_reports_unclamped_health
            [where now = 100 and lt = 0 and gs = gsBurn and fsA = "[]" and f = fireA
               and fsB = "[]" and i' = "''a''" and p' = "playerB\<lparr>p_health := 1\<rparr>"
               and j = "''a''" and h = "- 0.5" and prid = "[]" and owner = "[]"]
  have 1: "(ToAll, PlayerHit ''a'' (- 50) ''b-1-2'' ''b'') \<in> set (snd (tick 100 0 gsFatal)) \<and>
           (ToAll, PlayerDied ''a'' (Some ''b'')) \<in> set (snd (tick 100 0 gsFatal)) \<and>
           (''a'', playerA\<lparr>p_health := 0\<rparr>) \<in> set (players (fst (tick 100 0 gsFatal)))"
    using T1 c v by simp
  have 2: "(ToOne ''a'', FireDamage (- 0.5)) \<in> set (snd (tick 100 0 gsBurn)) \<and>
           (ToAll, PlayerDied ''a'' (Some ''fire'')) \<in> set (snd (tick 100 0 gsBurn)) \<and>
           (''a'', playerB\<lparr>p_health := 0\<rparr>) \<in> set (players (fst (tick 100 0 gsBurn)))"
    using T2 f v by simp
  have d: "distinct (map fst (players gsBurn)) \<and> (- 0.5 :: real) \<le> 0"
    by (simp add: gsBurn_def)
  have 3: "\<exists>q. map_of (players (fst (tick 100 0 gsBurn))) ''a'' = Some q \<and> p_health q = 0"
    using T2 2 d by blast
  show ?thesis using 1 2 3 by blast
qed

end
